theory Spec2Isabelle
  imports Complex_Main "HOL-Library.Word"
begin

unbundle bit_operations_syntax

section \<open>The realtime session controller of \<open>src/services/liveApi.ts\<close>\<close>

text \<open>
  The class \<open>LiveClient\<close> is embedded as a record of its private fields, its methods as
  functions that take the record and return it updated, together with the list of effects
  they had on the outside world (callbacks invoked, messages sent on the session, calls on
  the audio graph). What the browser or the remote service decides (the output clock, how a
  promise settles, whether a \<open>close()\<close> rejects) is an explicit argument.

  JavaScript strings are sequences of 16-bit code units, byte arrays are lists of 8-bit
  words, \<open>Int16Array\<close> elements are 16-bit words read with \<open>sint\<close>. JavaScript numbers are
  modelled as reals: the products and quotients by \<open>32768 = 2 ^ 15\<close> of the codec are exact
  on IEEE doubles, as is the conversion of a 16-bit quotient to a 32-bit float. The clock
  readings, the playback offset and the durations are doubles, held as the reals they
  denote: the quotient that gives an audio buffer its duration and the sum of the offset
  and a duration are rounded to the nearest double by \<open>to_double\<close>.

  The fields \<open>ai\<close> and \<open>config\<close> only parametrise the remote connection and are left out.
  The capture callback and the \<open>ended\<close> listener of a buffer source, which change the
  status, the set of sources and the voice-activity bookkeeping only, are not modelled.
\<close>

subsection \<open>Values\<close>

type_synonym byte = "8 word"
type_synonym int16 = "16 word"
type_synonym jsstring = "16 word list"

definition js :: "string \<Rightarrow> jsstring" where
  \<comment> \<open>a string literal of the program\<close>
  "js s = map (\<lambda>c. word_of_nat (of_char c)) s"

datatype AgentStatus = Idle | Connecting | Listening | Processing | Speaking | Error

datatype role = User | Model

datatype promise = Pending | Fulfilled | Rejected

datatype ctx_state = Suspended | Running | Closed

datatype rec_state = Inactive | Recording | Paused

record blob =
  blob_size :: nat
  blob_type :: jsstring

record recorder =
  rec_state :: rec_state
  rec_mimeType :: jsstring

record conn_error =
  err_message :: "jsstring option"
  err_status :: "int option"

datatype exn =
    InvalidCharacterError | RangeError | NotSupportedError | TypeError | NotAllowedError
  | ApiError conn_error

type_synonym json = "(jsstring \<times> jsstring) list"

datatype ctx_id = InputCtx | OutputCtx

datatype event =
    StatusChange AgentStatus
  | LeadUpdate "json option"
  | ToolResponse "jsstring option" "jsstring option" jsstring
  | Transcript jsstring role
  | SourceStart nat real real
  | SourceStop nat
  | SessionClose
  | RecorderStop
  | AudioRecord blob
  | ClearInterval
  | TrackStop
  | InputNodeDisconnect
  | ContextClose ctx_id
  | Sleep nat
  | Console string

text \<open>
  \<open>StatusChange\<close>, \<open>LeadUpdate\<close>, \<open>Transcript\<close> and \<open>AudioRecord\<close> are invocations of
  the public callbacks \<open>onStatusChange\<close>, \<open>onLeadUpdate\<close>, \<open>onTranscript\<close> and
  \<open>onAudioRecord\<close>; \<open>ToolResponse id name result\<close> is \<open>session.sendToolResponse\<close>;
  \<open>SourceStart n t d\<close> is \<open>source.start(t)\<close> on the buffer source node \<open>n\<close>, whose buffer
  lasts \<open>d\<close> seconds; \<open>Sleep ms\<close> is a \<open>setTimeout\<close> that is awaited; \<open>Console\<close> is a
  \<open>console.warn\<close> or \<open>console.error\<close> of a \<open>catch\<close> block.
\<close>

subsection \<open>The fields of \<open>LiveClient\<close>\<close>

text \<open>
  Object-valued fields are \<open>None\<close> for \<open>null\<close>. A callback field is \<open>True\<close> when a
  callback is registered. \<open>sources\<close> is the \<open>Set\<close> of buffer source nodes in insertion
  order, each node named by a number; \<open>fresh\<close> is the next unused number (the identity of
  the object that \<open>createBufferSource()\<close> returns).
\<close>

record LiveClient =
  inputAudioContext :: "ctx_state option"
  outputAudioContext :: "ctx_state option"
  inputNode :: bool
  outputNode :: bool
  outputAnalyser :: bool
  sources :: "nat list"
  fresh :: nat
  nextStartTime :: real
  stream :: bool
  sessionPromise :: "promise option"
  outputVolumeInterval :: bool
  currentStatus :: AgentStatus
  lastUserInteraction :: real
  hasSpokenOnce :: bool
  mediaRecorder :: "recorder option"
  audioChunks :: "blob list"
  currentInputTranscription :: jsstring
  currentOutputTranscription :: jsstring
  onVolumeUpdate :: bool
  onStatusChange :: bool
  onTranscript :: bool
  onLeadUpdate :: bool
  onAudioRecord :: bool

definition initial :: LiveClient where
  \<comment> \<open>the field initialisers of the class\<close>
  "initial = \<lparr> inputAudioContext = None, outputAudioContext = None, inputNode = False,
     outputNode = False, outputAnalyser = False, sources = [], fresh = 0, nextStartTime = 0,
     stream = False, sessionPromise = None, outputVolumeInterval = False,
     currentStatus = Idle, lastUserInteraction = 0, hasSpokenOnce = False,
     mediaRecorder = None, audioChunks = [], currentInputTranscription = [],
     currentOutputTranscription = [], onVolumeUpdate = False, onStatusChange = False,
     onTranscript = False, onLeadUpdate = False, onAudioRecord = False \<rparr>"

subsection \<open>\<open>setStatus\<close>\<close>

definition setStatus :: "AgentStatus \<Rightarrow> LiveClient \<Rightarrow> LiveClient \<times> event list" where
  "setStatus status s =
     (if currentStatus s = Error \<and> status \<noteq> Idle \<and> status \<noteq> Connecting then (s, [])
      else (s\<lparr>currentStatus := status\<rparr>,
            if onStatusChange s then [StatusChange status] else []))"

text \<open>A sequence of status-update requests, served one after the other.\<close>

fun setStatuses :: "AgentStatus list \<Rightarrow> LiveClient \<Rightarrow> LiveClient \<times> event list" where
  "setStatuses [] s = (s, [])"
| "setStatuses (r # rs) s =
     (let (s1, e1) = setStatus r s; (s2, e2) = setStatuses rs s1 in (s2, e1 @ e2))"

subsection \<open>Base64 framing: \<open>btoa\<close>, \<open>atob\<close>, \<open>encode\<close>, \<open>decode\<close>\<close>

text \<open>
  \<open>btoa\<close> and \<open>atob\<close> are the browser's functions. They are modelled after the HTML
  standard: \<open>btoa\<close> refuses a code unit above 255 and otherwise applies the base64
  alphabet of RFC 4648 with padding; \<open>atob\<close> is the forgiving decoder, which removes ASCII
  whitespace, removes one or two final \<open>=\<close> when the length is a multiple of four, refuses
  a length that leaves remainder one and any code unit outside the alphabet, and drops the
  unused low bits of a last incomplete group.
\<close>

definition b64_char :: "nat \<Rightarrow> nat" where
  \<comment> \<open>the code unit of the alphabet for a 6-bit value: A-Z, a-z, 0-9, +, /\<close>
  "b64_char i = (if i < 26 then 65 + i else if i < 52 then 71 + i
                 else if i < 62 then i - 4 else if i = 62 then 43 else 47)"

definition b64_value :: "nat \<Rightarrow> nat option" where
  "b64_value c =
     (if 65 \<le> c \<and> c \<le> 90 then Some (c - 65)
      else if 97 \<le> c \<and> c \<le> 122 then Some (c - 71)
      else if 48 \<le> c \<and> c \<le> 57 then Some (c + 4)
      else if c = 43 then Some 62
      else if c = 47 then Some 63 else None)"

fun sextets :: "nat list \<Rightarrow> nat list" where
  "sextets (a # b # c # r) =
     [a div 4, (a mod 4) * 16 + b div 16, (b mod 16) * 4 + c div 64, c mod 64] @ sextets r"
| "sextets [a, b] = [a div 4, (a mod 4) * 16 + b div 16, (b mod 16) * 4]"
| "sextets [a] = [a div 4, (a mod 4) * 16]"
| "sextets [] = []"

fun padding :: "nat list \<Rightarrow> nat list" where
  "padding (a # b # c # r) = padding r"
| "padding [a, b] = [61]"
| "padding [a] = [61, 61]"
| "padding [] = []"

definition ascii_whitespace :: "nat \<Rightarrow> bool" where
  "ascii_whitespace c = (c = 9 \<or> c = 10 \<or> c = 12 \<or> c = 13 \<or> c = 32)"

definition strip_padding :: "nat list \<Rightarrow> nat list" where
  "strip_padding d =
     (if length d mod 4 = 0 then
        (if 2 \<le> length d \<and> last d = 61 \<and> last (butlast d) = 61 then butlast (butlast d)
         else if 1 \<le> length d \<and> last d = 61 then butlast d
         else d)
      else d)"

fun octets :: "nat list \<Rightarrow> nat list" where
  "octets (p # q # r # s # rest) =
     [p * 4 + q div 16, (q mod 16) * 16 + r div 4, (r mod 4) * 64 + s] @ octets rest"
| "octets [p, q, r] = [p * 4 + q div 16, (q mod 16) * 16 + r div 4]"
| "octets [p, q] = [p * 4 + q div 16]"
| "octets [p] = []"
| "octets [] = []"

definition btoa :: "jsstring \<Rightarrow> exn + jsstring" where
  "btoa s =
     (if list_ex (\<lambda>c. 255 < c) s then Inl InvalidCharacterError
      else Inr (map word_of_nat
             (map b64_char (sextets (map unat s)) @ padding (map unat s))))"

definition atob :: "jsstring \<Rightarrow> exn + jsstring" where
  "atob s =
     (let d = strip_padding (filter (\<lambda>c. \<not> ascii_whitespace c) (map unat s)) in
      if length d mod 4 = 1 then Inl InvalidCharacterError
      else case those (map b64_value d) of
             None \<Rightarrow> Inl InvalidCharacterError
           | Some v \<Rightarrow> Inr (map word_of_nat (octets v)))"

text \<open>
  \<open>encode\<close> builds the binary string with \<open>String.fromCharCode\<close> of each byte (the byte
  as a code unit) and applies \<open>btoa\<close>; \<open>decode\<close> applies \<open>atob\<close> and stores
  \<open>charCodeAt(i)\<close> in a \<open>Uint8Array\<close>, which keeps the low eight bits.
\<close>

definition encode :: "byte list \<Rightarrow> exn + jsstring" where
  "encode bytes = btoa (map ucast bytes)"

definition decode :: "jsstring \<Rightarrow> exn + byte list" where
  "decode base64 =
     (case atob base64 of
        Inl e \<Rightarrow> Inl e
      | Inr binaryString \<Rightarrow> Inr (map ucast binaryString))"

subsection \<open>PCM conversion: \<open>createBlob\<close> and \<open>decodeAudioData\<close>\<close>

text \<open>
  An element of a \<open>Float32Array\<close> is a finite number, a NaN or an infinity. Storing a
  number in an \<open>Int16Array\<close> applies the conversion \<open>ToInt16\<close> of the language: NaN and
  the infinities become 0, a finite number is truncated towards zero and reduced modulo
  \<open>2 ^ 16\<close>. The views \<open>new Uint8Array(int16.buffer)\<close> and \<open>new Int16Array(data.buffer)\<close>
  share the bytes in the byte order of the platform, little-endian here; the second one
  raises a \<open>RangeError\<close> on an odd number of bytes.
\<close>

datatype number = Num real | NaN | PosInfinity | NegInfinity

fun times :: "number \<Rightarrow> real \<Rightarrow> number" where
  "times (Num x) k = Num (x * k)"
| "times NaN k = NaN"
| "times PosInfinity k = (if 0 < k then PosInfinity else if k < 0 then NegInfinity else NaN)"
| "times NegInfinity k = (if 0 < k then NegInfinity else if k < 0 then PosInfinity else NaN)"

definition js_truncate :: "real \<Rightarrow> int" where
  "js_truncate x = (if 0 \<le> x then \<lfloor>x\<rfloor> else \<lceil>x\<rceil>)"

fun ToInt16 :: "number \<Rightarrow> int16" where
  "ToInt16 (Num x) = word_of_int (js_truncate x)"
| "ToInt16 NaN = 0"
| "ToInt16 PosInfinity = 0"
| "ToInt16 NegInfinity = 0"

definition int16_bytes :: "int16 \<Rightarrow> byte list" where
  "int16_bytes w = [ucast w, ucast (drop_bit 8 w)]"

definition Uint8Array_view :: "int16 list \<Rightarrow> byte list" where
  "Uint8Array_view ws = concat (map int16_bytes ws)"

fun int16_elements :: "byte list \<Rightarrow> int16 list" where
  "int16_elements (lo # hi # r) = (ucast lo OR push_bit 8 (ucast hi)) # int16_elements r"
| "int16_elements [b] = []"
| "int16_elements [] = []"

definition Int16Array_view :: "byte list \<Rightarrow> exn + int16 list" where
  "Int16Array_view bytes =
     (if odd (length bytes) then Inl RangeError else Inr (int16_elements bytes))"

record pcm_blob =
  data :: jsstring
  mimeType :: jsstring

definition createBlob :: "number list \<Rightarrow> exn + pcm_blob" where
  "createBlob samples =
     (let int16 = map (\<lambda>x. ToInt16 (times x 32768)) samples in
      case encode (Uint8Array_view int16) of
        Inl e \<Rightarrow> Inl e
      | Inr b \<Rightarrow> Inr \<lparr> data = b, mimeType = js ''audio/pcm;rate=16000'' \<rparr>)"

text \<open>
  \<open>createBuffer\<close> raises \<open>NotSupportedError\<close> for no channel, no frame or a zero rate
  (the upper limits of an implementation are left out).
  \<open>decodeAudioData\<close> computes \<open>frameCount\<close> as a quotient of numbers; \<open>createBuffer\<close>
  truncates it and writes beyond the end of a channel are ignored, so the buffer holds
  \<open>length dataInt16 div numChannels\<close> frames. The audio context argument only serves to
  create the buffer.
\<close>

record AudioBuffer =
  sampleRate :: nat
  frames :: nat
  channelData :: "real list list"

text \<open>
  Arithmetic on numbers is that of IEEE 754 binary64 with the rounding mode of JavaScript,
  round to nearest, ties to even: the result of a sum or a quotient of two doubles is the
  exact result rounded. \<open>binade a e n\<close> looks for the exponent \<open>e\<close> with
  \<open>2 ^ e \<le> a < 2 ^ (e + 1)\<close>, at most \<open>n\<close> away from where it starts. Neighbouring doubles
  near \<open>x\<close> are \<open>ulp x\<close> apart: the significand has 53 bits, and below \<open>2 ^ - 1022\<close> the
  doubles are subnormal, \<open>2 ^ - 1074\<close> apart. Results of magnitude \<open>2 ^ 1024\<close> and more, which
  a double holds as an infinity, are outside the model.
\<close>

fun binade :: "real \<Rightarrow> int \<Rightarrow> nat \<Rightarrow> int" where
  "binade a e 0 = e"
| "binade a e (Suc n) =
     (if 2 powi (e + 1) \<le> a then binade a (e + 1) n
      else if a < 2 powi e then binade a (e - 1) n
      else e)"

definition roundTiesToEven :: "real \<Rightarrow> int" where
  "roundTiesToEven y =
     (let f = \<lfloor>y\<rfloor> in
      if y - of_int f < 1 / 2 then f
      else if 1 / 2 < y - of_int f then f + 1
      else if even f then f else f + 1)"

definition ulp :: "real \<Rightarrow> real" where
  "ulp x = 2 powi (max (binade \<bar>x\<bar> 0 1100) (- 1022) - 52)"

definition to_double :: "real \<Rightarrow> real" where
  "to_double x = of_int (roundTiesToEven (x / ulp x)) * ulp x"

text \<open>\<open>AudioBuffer.duration\<close> is the quotient of the length by the sample rate.\<close>

definition duration :: "AudioBuffer \<Rightarrow> real" where
  "duration b = to_double (real (frames b) / real (sampleRate b))"

definition createBuffer :: "nat \<Rightarrow> nat \<Rightarrow> nat \<Rightarrow> exn + AudioBuffer" where
  "createBuffer numChannels len rate =
     (if numChannels = 0 \<or> len = 0 \<or> rate = 0 then Inl NotSupportedError
      else Inr \<lparr> sampleRate = rate, frames = len,
                 channelData = replicate numChannels (replicate len 0) \<rparr>)"

definition decodeAudioData :: "byte list \<Rightarrow> nat \<Rightarrow> nat \<Rightarrow> exn + AudioBuffer" where
  "decodeAudioData bytes rate numChannels =
     (case Int16Array_view bytes of
        Inl e \<Rightarrow> Inl e
      | Inr dataInt16 \<Rightarrow>
          (let frameCount = length dataInt16 div numChannels in
           case createBuffer numChannels frameCount rate of
             Inl e \<Rightarrow> Inl e
           | Inr buffer \<Rightarrow>
               Inr (buffer\<lparr> channelData :=
                      map (\<lambda>channel.
                             map (\<lambda>i. real_of_int (sint (dataInt16 ! (i * numChannels + channel)))
                                        / 32768)
                               [0 ..< frameCount])
                        [0 ..< numChannels] \<rparr>)))"

text \<open>
  The wire format in the words of the specification: each sample times 32768, stored as a
  16-bit signed integer, low byte first; and each 16-bit signed value divided by 32768.
\<close>

definition pcm16le :: "number list \<Rightarrow> byte list" where
  "pcm16le samples =
     concat (map (\<lambda>x. let v = ToInt16 (times x 32768) in [ucast v, ucast (drop_bit 8 v)])
               samples)"

definition normalized :: "int16 \<Rightarrow> real" where
  "normalized v = real_of_int (sint v) / 32768"

subsection \<open>Inbound messages\<close>

text \<open>
  A \<open>LiveServerMessage\<close>, reduced to what \<open>handleMessage\<close> reads. The optional chains
  \<open>serverContent?.outputTranscription?.text\<close>, \<open>serverContent?.inputTranscription?.text\<close>,
  \<open>serverContent?.turnComplete\<close> and \<open>serverContent?.interrupted\<close> each give one field,
  absent (\<open>None\<close>, \<open>False\<close>) when any link of the chain is. \<open>toolCall\<close> is \<open>None\<close> when the
  message has no tool call and \<open>Some None\<close> when it has one without \<open>functionCalls\<close>;
  \<open>modelTurn\<close> is \<open>None\<close> when there is no model turn and \<open>Some None\<close> when the turn has
  no \<open>parts\<close>. A part is its \<open>inlineData?.data\<close>.
\<close>

record functionCall =
  call_id :: "jsstring option"
  call_name :: "jsstring option"
  call_args :: "json option"

type_synonym part = "jsstring option"

record message =
  toolCall :: "functionCall list option option"
  outputTranscriptionText :: "jsstring option"
  inputTranscriptionText :: "jsstring option"
  turnComplete :: bool
  modelTurn :: "part list option option"
  interrupted :: bool

definition emptyMessage :: message where
  \<comment> \<open>the message \<open>{}\<close>, with no field set\<close>
  "emptyMessage = \<lparr> toolCall = None, outputTranscriptionText = None,
     inputTranscriptionText = None, turnComplete = False, modelTurn = None,
     interrupted = False \<rparr>"

definition js_whitespace :: "16 word \<Rightarrow> bool" where
  \<comment> \<open>the white space and line terminators that \<open>String.prototype.trim\<close> removes\<close>
  "js_whitespace c =
     (c = 9 \<or> c = 10 \<or> c = 11 \<or> c = 12 \<or> c = 13 \<or> c = 32 \<or> c = 160 \<or> c = 5760
      \<or> (8192 \<le> c \<and> c \<le> 8202) \<or> c = 8232 \<or> c = 8233 \<or> c = 8239 \<or> c = 8287
      \<or> c = 12288 \<or> c = 65279)"

definition trim :: "jsstring \<Rightarrow> jsstring" where
  "trim s = rev (dropWhile js_whitespace (rev (dropWhile js_whitespace s)))"

subsection \<open>\<open>handleMessage\<close>\<close>

text \<open>
  The loop over the function calls. The first component lists the callback invocations,
  the second the tool responses: \<open>sessionPromise?.then(...)\<close> sends the response in a
  later microtask when the promise is fulfilled, never when it is \<open>null\<close> or rejected
  (and, for a pending one, not within the handling of this message).
\<close>

fun forwardCalls :: "functionCall list \<Rightarrow> LiveClient \<Rightarrow> event list \<times> event list" where
  "forwardCalls [] s = ([], [])"
| "forwardCalls (fc # fcs) s =
     (let (calls, sends) = forwardCalls fcs s in
      if call_name fc = Some (js ''update_lead'') \<and> onLeadUpdate s then
        (LeadUpdate (call_args fc) # calls,
         (if sessionPromise s = Some Fulfilled
          then [ToolResponse (call_id fc) (call_name fc) (js ''Lead updated successfully.'')]
          else []) @ sends)
      else (calls, sends))"

definition appendTranscripts :: "message \<Rightarrow> LiveClient \<Rightarrow> LiveClient" where
  "appendTranscripts m s =
     (let s1 = (case outputTranscriptionText m of
                  Some text \<Rightarrow>
                    if text \<noteq> [] then
                      s\<lparr>currentOutputTranscription := currentOutputTranscription s @ text\<rparr>
                    else s
                | None \<Rightarrow> s)
      in case inputTranscriptionText m of
           Some text \<Rightarrow>
             if text \<noteq> [] then
               s1\<lparr>currentInputTranscription := currentInputTranscription s1 @ text\<rparr>
             else s1
         | None \<Rightarrow> s1)"

definition flushTurn :: "LiveClient \<Rightarrow> LiveClient \<times> event list" where
  "flushTurn s =
     (let (s1, e1) =
            (if trim (currentInputTranscription s) \<noteq> [] \<and> onTranscript s
             then (s\<lparr>currentInputTranscription := []\<rparr>,
                   [Transcript (currentInputTranscription s) User])
             else (s, []));
          (s2, e2) =
            (if trim (currentOutputTranscription s1) \<noteq> [] \<and> onTranscript s1
             then (s1\<lparr>currentOutputTranscription := []\<rparr>,
                   [Transcript (currentOutputTranscription s1) Model])
             else (s1, []))
      in (s2, e1 @ e2))"

definition base64Audio :: "message \<Rightarrow> exn + jsstring option" where
  \<comment> \<open>\<open>message.serverContent?.modelTurn?.parts[0]?.inlineData?.data\<close>\<close>
  "base64Audio m =
     (case modelTurn m of
        None \<Rightarrow> Inr None
      | Some None \<Rightarrow> Inl TypeError
      | Some (Some []) \<Rightarrow> Inr None
      | Some (Some (p # ps)) \<Rightarrow> Inr p)"

text \<open>
  The audio branch. \<open>now\<close> is \<open>outputAudioContext.currentTime\<close>. The result holds the
  exception raised, if any, the controller, the effects before the \<open>await\<close> and the
  effects after it. A failure of \<open>decode\<close> or of \<open>decodeAudioData\<close> ends the handler
  after the status and the offset have been updated. \<open>nextStartTime += audioBuffer.duration\<close>
  stores the sum rounded to a double.
\<close>

definition playAudio ::
  "real \<Rightarrow> jsstring \<Rightarrow> LiveClient \<Rightarrow> exn option \<times> LiveClient \<times> event list \<times> event list" where
  "playAudio now b s =
     (let (s1, e1) = (if currentStatus s \<noteq> Speaking then setStatus Speaking s else (s, []));
          s2 = s1\<lparr>nextStartTime := max (nextStartTime s1) now\<rparr>
      in case decode b of
           Inl e \<Rightarrow> (Some e, s2, e1, [])
         | Inr bytes \<Rightarrow>
             (case decodeAudioData bytes 24000 1 of
                Inl e \<Rightarrow> (Some e, s2, e1, [])
              | Inr audioBuffer \<Rightarrow>
                  (let source = fresh s2 in
                   (None,
                    s2\<lparr>fresh := Suc source,
                       nextStartTime := to_double (nextStartTime s2 + duration audioBuffer),
                       sources := sources s2 @ [source]\<rparr>,
                    e1,
                    [SourceStart source (nextStartTime s2) (duration audioBuffer)]))))"

definition interrupt :: "LiveClient \<Rightarrow> LiveClient \<times> event list" where
  "interrupt s =
     (let stops = map SourceStop (sources s);
          (s1, e1) = setStatus Listening (s\<lparr>sources := [], nextStartTime := 0\<rparr>)
      in (s1\<lparr>lastUserInteraction := 0, hasSpokenOnce := False,
             currentOutputTranscription := []\<rparr>,
          stops @ e1))"

text \<open>
  \<open>handleMessage\<close> returns the exception that ended it (\<open>None\<close> when it ran to its end),
  the controller as the handler left it, and the effects in the order they happen: the
  tool responses, sent from microtasks, come after the synchronous part, that is at the
  \<open>await\<close> of the audio branch or, without audio, after the handler. The audio payload
  \<open>b\<close> is the empty string when it is absent: both are falsy. A tool call without
  \<open>functionCalls\<close> raises a \<open>TypeError\<close> at the \<open>for\<close> loop.
\<close>

definition forwarded :: "message \<Rightarrow> LiveClient \<Rightarrow> event list \<times> event list" where
  \<comment> \<open>the tool call block, when \<open>functionCalls\<close> can be iterated\<close>
  "forwarded m s =
     (case toolCall m of Some (Some fcs) \<Rightarrow> forwardCalls fcs s | _ \<Rightarrow> ([], []))"

definition heard :: "message \<Rightarrow> LiveClient \<Rightarrow> LiveClient \<times> event list" where
  \<comment> \<open>the two transcription blocks and the turn-complete block\<close>
  "heard m s =
     (let s1 = appendTranscripts m s in
      if turnComplete m then flushTurn s1 else (s1, []))"

definition handleMessage ::
  "real \<Rightarrow> message \<Rightarrow> LiveClient \<Rightarrow> exn option \<times> LiveClient \<times> event list" where
  "handleMessage now m s =
     (if toolCall m = Some None then (Some TypeError, s, [])
      else
        (let (calls, sends) = forwarded m s;
             (s2, e2) = heard m s
         in case base64Audio m of
              Inl e \<Rightarrow> (Some e, s2, calls @ e2 @ sends)
            | Inr a \<Rightarrow>
                (let b = (case a of Some b \<Rightarrow> b | None \<Rightarrow> []) in
                 if b \<noteq> [] \<and> outputAudioContext s2 \<noteq> None \<and> outputNode s2
                 then
                   (case playAudio now b s2 of
                      (Some e, s3, pre, post) \<Rightarrow> (Some e, s3, calls @ e2 @ pre @ sends)
                    | (None, s3, pre, post) \<Rightarrow>
                        (let (s4, e4) = (if interrupted m then interrupt s3 else (s3, []))
                         in (None, s4, calls @ e2 @ pre @ sends @ post @ e4)))
                 else
                   (let (s4, e4) = (if interrupted m then interrupt s2 else (s2, []))
                    in (None, s4, calls @ e2 @ e4 @ sends)))))"

definition playable :: "jsstring option \<Rightarrow> LiveClient \<Rightarrow> bool" where
  \<comment> \<open>the condition of the audio branch:
     \<open>base64Audio && this.outputAudioContext && this.outputNode\<close>\<close>
  "playable a u = ((case a of Some b \<Rightarrow> b | None \<Rightarrow> []) \<noteq> []
      \<and> outputAudioContext u \<noteq> None \<and> outputNode u)"

text \<open>
  Messages are handled one after the other, each with the clock reading of its handling;
  a handler that ends with an exception leaves an unhandled rejection and the next message
  is handled all the same.
\<close>

fun run :: "(real \<times> message) list \<Rightarrow> LiveClient \<Rightarrow> LiveClient \<times> event list" where
  "run [] s = (s, [])"
| "run ((now, m) # ms) s =
     (case handleMessage now m s of
        (x, s1, e1) \<Rightarrow> (case run ms s1 of (s2, e2) \<Rightarrow> (s2, e1 @ e2)))"

fun starts :: "event list \<Rightarrow> (real \<times> real) list" where
  "starts [] = []"
| "starts (SourceStart n t d # es) = (t, d) # starts es"
| "starts (e # es) = starts es"

text \<open>
  The playback timeline of a run: for every chunk scheduled, the clock reading of its
  message, its start time, its duration, and whether a message carrying the interruption
  signal was handled since the chunk before it was scheduled, the message of that chunk
  included (for the first chunk: since the run began, when \<open>r\<close> is \<open>False\<close>).
\<close>

record chunk =
  clock :: real
  begins :: real
  lasts :: real
  afterInterruption :: bool

fun timeline :: "bool \<Rightarrow> (real \<times> message) list \<Rightarrow> LiveClient \<Rightarrow> chunk list" where
  "timeline r [] s = []"
| "timeline r ((now, m) # ms) s =
     (case handleMessage now m s of
        (x, s1, e1) \<Rightarrow>
          map (\<lambda>(t, d). \<lparr>clock = now, begins = t, lasts = d, afterInterruption = r\<rparr>) (starts e1)
          @ timeline (interrupted m \<or> (r \<and> starts e1 = [])) ms s1)"

text \<open>
  A timeline is sequential from \<open>lo\<close> when every chunk starts at or after the clock reading
  of its message and, unless an interruption came before it, at or after the end that the
  program computed for the chunk before it (\<open>lo\<close> for the first chunk).
\<close>

fun sequential :: "real \<Rightarrow> chunk list \<Rightarrow> bool" where
  "sequential lo [] = True"
| "sequential lo (c # cs) =
     (clock c \<le> begins c \<and> (\<not> afterInterruption c \<longrightarrow> lo \<le> begins c)
      \<and> sequential (to_double (begins c + lasts c)) cs)"

fun transcripts :: "event list \<Rightarrow> (jsstring \<times> role) list" where
  "transcripts [] = []"
| "transcripts (Transcript text r # es) = (text, r) # transcripts es"
| "transcripts (e # es) = transcripts es"

fun leadUpdates :: "event list \<Rightarrow> json option list" where
  "leadUpdates [] = []"
| "leadUpdates (LeadUpdate args # es) = args # leadUpdates es"
| "leadUpdates (e # es) = leadUpdates es"

fun toolResponses :: "event list \<Rightarrow> (jsstring option \<times> jsstring option \<times> jsstring) list" where
  "toolResponses [] = []"
| "toolResponses (ToolResponse i n r # es) = (i, n, r) # toolResponses es"
| "toolResponses (e # es) = toolResponses es"

text \<open>The transcript fragments that a sequence of messages carries, joined.\<close>

definition fragment :: "jsstring option \<Rightarrow> jsstring" where
  "fragment t = (case t of Some text \<Rightarrow> text | None \<Rightarrow> [])"

definition inputFragments :: "(real \<times> message) list \<Rightarrow> jsstring" where
  "inputFragments ms = concat (map (\<lambda>(now, m). fragment (inputTranscriptionText m)) ms)"

definition outputFragments :: "(real \<times> message) list \<Rightarrow> jsstring" where
  "outputFragments ms = concat (map (\<lambda>(now, m). fragment (outputTranscriptionText m)) ms)"

definition nonblank :: "jsstring \<Rightarrow> bool" where
  \<comment> \<open>\<open>s.trim()\<close> is truthy\<close>
  "nonblank s = (trim s \<noteq> [])"

subsection \<open>\<open>disconnect\<close>\<close>

text \<open>
  A call is \<open>Done\<close> when it returns, \<open>Raised e\<close> when it ends with an exception and
  \<open>Blocked\<close> when it waits for a promise that never settles. \<open>andThen\<close> is sequential
  composition, \<open>tryCatch\<close> a \<open>try\<close> block with its \<open>catch\<close>.
\<close>

datatype outcome = Done | Raised exn | Blocked

type_synonym result = "outcome \<times> LiveClient \<times> event list"

definition andThen :: "result \<Rightarrow> (LiveClient \<Rightarrow> result) \<Rightarrow> result" where
  "andThen r f =
     (case r of
        (Done, s, ev) \<Rightarrow> (case f s of (x, s1, ev1) \<Rightarrow> (x, s1, ev @ ev1))
      | (Raised e, s, ev) \<Rightarrow> (Raised e, s, ev)
      | (Blocked, s, ev) \<Rightarrow> (Blocked, s, ev))"

definition tryCatch :: "result \<Rightarrow> (exn \<Rightarrow> LiveClient \<Rightarrow> result) \<Rightarrow> result" where
  "tryCatch r h =
     (case r of
        (Raised e, s, ev) \<Rightarrow> (case h e s of (x, s1, ev1) \<Rightarrow> (x, s1, ev @ ev1))
      | (Done, s, ev) \<Rightarrow> (Done, s, ev)
      | (Blocked, s, ev) \<Rightarrow> (Blocked, s, ev))"

definition returns :: "LiveClient \<times> event list \<Rightarrow> result" where
  "returns r = (case r of (s, ev) \<Rightarrow> (Done, s, ev))"

text \<open>
  What the surroundings decide during a teardown: how a session promise that is still
  pending settles (\<open>Pending\<close>: never), whether \<open>session.close()\<close> throws, the data that
  the recorder delivers with the \<open>dataavailable\<close> event of its \<open>stop()\<close>, and whether
  the \<open>close()\<close> of either audio context rejects. The recorder fires its \<open>stop\<close> event
  after every \<open>stop()\<close>, as the MediaStream Recording standard has it.
\<close>

record teardown_env =
  settles :: promise
  closeThrows :: "exn option"
  finalData :: blob
  inputCloseRejects :: "exn option"
  outputCloseRejects :: "exn option"

definition attempt :: "exn option \<Rightarrow> event \<Rightarrow> LiveClient \<Rightarrow> result" where
  \<comment> \<open>a call on the platform that the surroundings let fail or not\<close>
  "attempt failure ev s =
     (case failure of None \<Rightarrow> (Done, s, [ev]) | Some e \<Rightarrow> (Raised e, s, [ev]))"

definition closeSession :: "teardown_env \<Rightarrow> LiveClient \<Rightarrow> result" where
  "closeSession env s =
     (case sessionPromise s of
        None \<Rightarrow> (Done, s, [])
      | Some p \<Rightarrow>
          (let settled = (if p = Pending then settles env else p) in
           if settled = Pending then (Blocked, s, [])
           else
             andThen
               (tryCatch
                  (if settled = Fulfilled then attempt (closeThrows env) SessionClose s
                   else (Done, s, []))
                  (\<lambda>e s. (Done, s, [Console ''Error closing session''])))
               (\<lambda>s. (Done, s\<lparr>sessionPromise := None\<rparr>, []))))"

definition recording :: "recorder \<Rightarrow> blob list \<Rightarrow> blob" where
  \<comment> \<open>\<open>new Blob(this.audioChunks, { type })\<close> with the type of the recorder\<close>
  "recording r chunks =
     \<lparr> blob_size = sum_list (map blob_size chunks),
       blob_type = (if rec_mimeType r \<noteq> [] then rec_mimeType r else js ''audio/webm'') \<rparr>"

definition stopRecorder :: "teardown_env \<Rightarrow> LiveClient \<Rightarrow> result" where
  "stopRecorder env s =
     (case mediaRecorder s of
        None \<Rightarrow> (Done, s, [])
      | Some r \<Rightarrow>
          if rec_state r = Inactive then (Done, s, [])
          else
            (let chunks = audioChunks s
                   @ (if 0 < blob_size (finalData env) then [finalData env] else []);
                 blob = recording r chunks
             in (Done,
                 s\<lparr>mediaRecorder := Some (r\<lparr>rec_state := Inactive\<rparr>), audioChunks := chunks\<rparr>,
                 RecorderStop
                   # (if onAudioRecord s \<and> 0 < blob_size blob then [AudioRecord blob] else []))))"

definition releaseCapture :: "LiveClient \<Rightarrow> LiveClient \<times> event list" where
  "releaseCapture s =
     (let (s1, e1) = (if outputVolumeInterval s
                      then (s\<lparr>outputVolumeInterval := False\<rparr>, [ClearInterval]) else (s, []));
          (s2, e2) = (if stream s1 then (s1\<lparr>stream := False\<rparr>, [TrackStop]) else (s1, []));
          (s3, e3) = (if inputNode s2
                      then (s2\<lparr>inputNode := False\<rparr>, [InputNodeDisconnect]) else (s2, []))
      in (s3, e1 @ e2 @ e3))"

definition closeInputContext :: "teardown_env \<Rightarrow> LiveClient \<Rightarrow> result" where
  "closeInputContext env s =
     (case inputAudioContext s of
        None \<Rightarrow> (Done, s, [])
      | Some st \<Rightarrow>
          andThen
            (if st \<noteq> Closed then
               tryCatch (attempt (inputCloseRejects env) (ContextClose InputCtx) s)
                 (\<lambda>e s. (Done, s, [Console ''Error closing inputAudioContext'']))
             else (Done, s, []))
            (\<lambda>s. (Done, s\<lparr>inputAudioContext := None\<rparr>, [])))"

definition closeOutputContext :: "teardown_env \<Rightarrow> LiveClient \<Rightarrow> result" where
  "closeOutputContext env s =
     (case outputAudioContext s of
        None \<Rightarrow> (Done, s, [])
      | Some st \<Rightarrow>
          andThen
            (if st \<noteq> Closed then
               tryCatch (attempt (outputCloseRejects env) (ContextClose OutputCtx) s)
                 (\<lambda>e s. (Done, s, [Console ''Error closing outputAudioContext'']))
             else (Done, s, []))
            (\<lambda>s. (Done, s\<lparr>outputAudioContext := None\<rparr>, [])))"

definition stopSources :: "LiveClient \<Rightarrow> LiveClient \<times> event list" where
  \<comment> \<open>the last three statements: stop and clear the sources, then \<open>setStatus('idle')\<close>\<close>
  "stopSources s =
     (let stops = map SourceStop (sources s);
          (s1, e1) = setStatus Idle (s\<lparr>sources := []\<rparr>)
      in (s1, stops @ e1))"

definition disconnect :: "teardown_env \<Rightarrow> LiveClient \<Rightarrow> result" where
  "disconnect env s =
     andThen (closeSession env s) (\<lambda>s.
     andThen (stopRecorder env s) (\<lambda>s.
     andThen (returns (releaseCapture s)) (\<lambda>s.
     andThen (closeInputContext env s) (\<lambda>s.
     andThen (closeOutputContext env s) (\<lambda>s.
     returns (stopSources s))))))"

text \<open>
  A call \<open>this.disconnect()\<close> that is not awaited runs up to the first \<open>await\<close> it
  reaches before its caller goes on. \<open>disconnect_sync\<close> is that part; its first component
  tells whether it reached the end of \<open>disconnect\<close>. \<open>stop()\<close> makes the recorder
  inactive at once and \<open>close()\<close> is called before its promise is awaited.
\<close>

definition disconnect_sync :: "LiveClient \<Rightarrow> bool \<times> LiveClient \<times> event list" where
  "disconnect_sync s =
     (if sessionPromise s \<noteq> None then (False, s, [])
      else
        (case (case mediaRecorder s of
                 None \<Rightarrow> None
               | Some r \<Rightarrow> if rec_state r = Inactive then None else Some r) of
           Some r \<Rightarrow>
             (False, s\<lparr>mediaRecorder := Some (r\<lparr>rec_state := Inactive\<rparr>)\<rparr>, [RecorderStop])
         | None \<Rightarrow>
             (let (s1, e1) = releaseCapture s in
              if inputAudioContext s1 \<noteq> None \<and> inputAudioContext s1 \<noteq> Some Closed
              then (False, s1, e1 @ [ContextClose InputCtx])
              else
                (let s2 = s1\<lparr>inputAudioContext := None\<rparr> in
                 if outputAudioContext s2 \<noteq> None \<and> outputAudioContext s2 \<noteq> Some Closed
                 then (False, s2, e1 @ [ContextClose OutputCtx])
                 else
                   (let (s3, e3) = stopSources (s2\<lparr>outputAudioContext := None\<rparr>)
                    in (True, s3, e1 @ e3))))))"

text \<open>The step of the teardown order of the specification that an effect belongs to.\<close>

fun step :: "event \<Rightarrow> nat" where
  "step SessionClose = 1"
| "step (Console msg) = (if msg = ''Error closing session'' then 1 else 6)"
| "step RecorderStop = 2"
| "step (AudioRecord b) = 2"
| "step ClearInterval = 3"
| "step TrackStop = 4"
| "step InputNodeDisconnect = 5"
| "step (ContextClose c) = 6"
| "step (SourceStop n) = 7"
| "step (StatusChange st) = 8"
| "step e = 0"

definition in_steps :: "nat \<Rightarrow> nat \<Rightarrow> event list \<Rightarrow> bool" where
  \<comment> \<open>the effects follow the order of the steps and lie between two of them\<close>
  "in_steps lo hi ev = (sorted (map step ev) \<and> (\<forall>e \<in> set ev. lo \<le> step e \<and> step e \<le> hi))"

definition released :: "LiveClient \<Rightarrow> bool" where
  \<comment> \<open>no session, no active recorder, no timer, no microphone, no audio graph\<close>
  "released s =
     (sessionPromise s = None
      \<and> (case mediaRecorder s of None \<Rightarrow> True | Some r \<Rightarrow> rec_state r = Inactive)
      \<and> \<not> outputVolumeInterval s \<and> \<not> stream s \<and> \<not> inputNode s
      \<and> inputAudioContext s = None \<and> outputAudioContext s = None \<and> sources s = [])"

subsection \<open>\<open>connect\<close>\<close>

text \<open>
  A failure of \<open>ai.live.connect\<close> is an object that may carry a \<open>message\<close> and a
  \<open>status\<close> (\<open>conn_error\<close>). An attempt opens the connection (the \<open>onopen\<close> callback
  runs and the promise is fulfilled), fails with such an object, or never settles.
\<close>

datatype connection = Opens | Fails conn_error | Hangs

fun includes_js :: "jsstring \<Rightarrow> jsstring \<Rightarrow> bool" where
  \<comment> \<open>\<open>s.includes(t)\<close>\<close>
  "includes_js [] t = (t = [])"
| "includes_js (c # s) t = (take (length t) (c # s) = t \<or> includes_js s t)"

definition unavailable :: "conn_error \<Rightarrow> bool" where
  \<comment> \<open>\<open>e.message?.includes('unavailable') || e.status === 503\<close>\<close>
  "unavailable e =
     ((case err_message e of Some msg \<Rightarrow> includes_js msg (js ''unavailable'') | None \<Rightarrow> False)
      \<or> err_status e = Some 503)"

definition startAudioInput :: "LiveClient \<Rightarrow> LiveClient" where
  "startAudioInput s =
     (if inputAudioContext s = None \<or> \<not> stream s \<or> sessionPromise s = None then s
      else s\<lparr>inputNode := True\<rparr>)"

definition startOutputVolumeMonitoring :: "LiveClient \<Rightarrow> LiveClient \<times> event list" where
  "startOutputVolumeMonitoring s =
     (s\<lparr>outputVolumeInterval := True\<rparr>, if outputVolumeInterval s then [ClearInterval] else [])"

definition onopen :: "LiveClient \<Rightarrow> LiveClient \<times> event list" where
  "onopen s =
     (let (s1, e1) = setStatus Listening s;
          (s2, e2) = startOutputVolumeMonitoring (startAudioInput s1)
      in (s2, e1 @ e2))"

datatype attempt_result = Connected | Failed conn_error | Hung

text \<open>
  \<open>connectWithRetry att i retries\<close>: \<open>att i\<close> is what the \<open>i\<close>-th call of
  \<open>ai.live.connect\<close> does. The back-off is the awaited \<open>setTimeout\<close> of 1500 ms.
\<close>

fun connectWithRetry ::
  "(nat \<Rightarrow> connection) \<Rightarrow> nat \<Rightarrow> nat \<Rightarrow> LiveClient \<Rightarrow> attempt_result \<times> LiveClient \<times> event list"
where
  "connectWithRetry att i retries s =
     (case att i of
        Opens \<Rightarrow> (case onopen s of (s1, e1) \<Rightarrow> (Connected, s1, e1))
      | Hangs \<Rightarrow> (Hung, s, [])
      | Fails e \<Rightarrow>
          if 0 < retries \<and> unavailable e then
            (case connectWithRetry att (Suc i) (retries - 1) s of
               (x, s1, e1) \<Rightarrow>
                 (x, s1, Console ''Connection failed (Unavailable), retrying...''
                           # Sleep 1500 # e1))
          else (Failed e, s, []))"

declare connectWithRetry.simps [simp del]

text \<open>
  What the surroundings decide during \<open>connect\<close>: the teardown that opens it, whether
  \<open>getUserMedia\<close> grants the microphone, whether \<open>MediaRecorder\<close> exists and which of the
  three container types it supports, and the connection attempts. The construction of the
  audio graph is taken to succeed. The recorder is created when the type chosen is
  supported; otherwise the constructor raises and the inner \<open>catch\<close> logs it.
\<close>

record connect_env =
  teardown :: teardown_env
  micGranted :: bool
  recorderDefined :: bool
  supportsOpus :: bool
  supportsMp4 :: bool
  supportsWebm :: bool
  attempts :: "nat \<Rightarrow> connection"

definition startRecording :: "connect_env \<Rightarrow> LiveClient \<Rightarrow> LiveClient \<times> event list" where
  "startRecording env s =
     (let mime = (if recorderDefined env then
                    (if supportsOpus env then js ''audio/webm;codecs=opus''
                     else if supportsMp4 env then js ''audio/mp4''
                     else js ''audio/webm'')
                  else js ''audio/webm'')
      in if recorderDefined env \<and> (supportsOpus env \<or> supportsMp4 env \<or> supportsWebm env)
         then (s\<lparr>mediaRecorder := Some \<lparr> rec_state = Recording, rec_mimeType = mime \<rparr>\<rparr>, [])
         else (s, [Console ''MediaRecorder failed to start'']))"

text \<open>
  The \<open>try\<close> block of \<open>connect\<close>: the audio graph, the microphone (a denied microphone
  is the \<open>NotAllowedError\<close> of \<open>getUserMedia\<close>), the recorder, and the connection with
  its retries, whose promise is stored in \<open>sessionPromise\<close> before any attempt settles.
\<close>

definition openSession :: "connect_env \<Rightarrow> LiveClient \<Rightarrow> result" where
  "openSession env s =
     (let s2 = s\<lparr>inputAudioContext := Some Running, outputAudioContext := Some Running,
                 outputNode := True, outputAnalyser := True\<rparr>
      in if micGranted env then
           (let (s3, e3) = startRecording env (s2\<lparr>stream := True\<rparr>);
                (x, s4, e4) =
                  connectWithRetry (attempts env) 0 3 (s3\<lparr>sessionPromise := Some Pending\<rparr>)
            in case x of
                 Connected \<Rightarrow> (Done, s4\<lparr>sessionPromise := Some Fulfilled\<rparr>, e3 @ e4)
               | Hung \<Rightarrow> (Blocked, s4, e3 @ e4)
               | Failed e \<Rightarrow>
                   (Raised (ApiError e), s4\<lparr>sessionPromise := Some Rejected\<rparr>, e3 @ e4))
         else (Raised NotAllowedError, s2, []))"

text \<open>
  The \<open>catch\<close> block of \<open>connect\<close>. It calls \<open>this.disconnect()\<close> without awaiting it,
  so that only \<open>disconnect_sync\<close> has run when \<open>connect\<close> returns; the rest of that
  teardown runs afterwards.
\<close>

definition connectFailed :: "exn \<Rightarrow> LiveClient \<Rightarrow> result" where
  "connectFailed e s =
     (case setStatus Error s of
        (s1, e1) \<Rightarrow>
          (case disconnect_sync s1 of
             (finished, s2, e2) \<Rightarrow>
               (Done, s2, Console ''Connection failed fully'' # e1 @ e2)))"

text \<open>\<open>connect\<close>, up to the moment its promise settles.\<close>

definition connect :: "connect_env \<Rightarrow> LiveClient \<Rightarrow> result" where
  "connect env s =
     andThen (disconnect (teardown env) s) (\<lambda>s.
     andThen (returns (setStatus Connecting s)) (\<lambda>s.
     tryCatch (openSession env (s\<lparr>audioChunks := []\<rparr>)) connectFailed))"

fun sleeps :: "event list \<Rightarrow> nat list" where
  \<comment> \<open>the back-off waits of a trace, in milliseconds\<close>
  "sleeps [] = []"
| "sleeps (Sleep ms # es) = ms # sleeps es"
| "sleeps (e # es) = sleeps es"

section \<open>Properties\<close>

subsection \<open>The error latch\<close>

lemma setStatus_latched:
  "currentStatus s = Error \<Longrightarrow> r \<noteq> Idle \<Longrightarrow> r \<noteq> Connecting \<Longrightarrow> setStatus r s = (s, [])"
  by (simp add: setStatus_def)

lemma setStatus_accepted:
  "r = Idle \<or> r = Connecting \<Longrightarrow> currentStatus (fst (setStatus r s)) = r"
  by (auto simp: setStatus_def)

lemma setStatuses_latched:
  "currentStatus s = Error \<Longrightarrow> Idle \<notin> set rs \<Longrightarrow> Connecting \<notin> set rs \<Longrightarrow>
   setStatuses rs s = (s, [])"
  by (induction rs) (auto simp: setStatus_latched)

text \<open>
  Claim C3. Once the status is \<open>error\<close>, a request for \<open>listening\<close>, \<open>speaking\<close> or
  \<open>processing\<close> leaves the controller as it is and fires no callback, and so does any
  sequence of requests without \<open>idle\<close> and \<open>connecting\<close>; a single request changes the
  status out of \<open>error\<close> exactly when it asks for \<open>idle\<close> or \<open>connecting\<close>, and then the
  status is the one requested.
\<close>

theorem error_latch:
  "currentStatus s = Error \<Longrightarrow>
     (r \<in> {Listening, Speaking, Processing} \<longrightarrow> setStatus r s = (s, [])) \<and>
     (Idle \<notin> set rs \<and> Connecting \<notin> set rs \<longrightarrow> setStatuses rs s = (s, [])) \<and>
     (currentStatus (fst (setStatus r s)) \<noteq> Error \<longleftrightarrow> r = Idle \<or> r = Connecting) \<and>
     (r = Idle \<or> r = Connecting \<longrightarrow> currentStatus (fst (setStatus r s)) = r)"
proof (intro conjI)
  assume e: "currentStatus s = Error"
  show "r \<in> {Listening, Speaking, Processing} \<longrightarrow> setStatus r s = (s, [])"
    using e by (auto simp: setStatus_latched)
  show "Idle \<notin> set rs \<and> Connecting \<notin> set rs \<longrightarrow> setStatuses rs s = (s, [])"
    using e by (simp add: setStatuses_latched)
  show "currentStatus (fst (setStatus r s)) \<noteq> Error \<longleftrightarrow> r = Idle \<or> r = Connecting"
    using e by (cases r) (simp_all add: setStatus_def)
  show "r = Idle \<or> r = Connecting \<longrightarrow> currentStatus (fst (setStatus r s)) = r"
    by (auto simp: setStatus_def)
qed

theorem error_latch_witness:
  "currentStatus (initial\<lparr>currentStatus := Error, onStatusChange := True\<rparr>) = Error
   \<and> setStatus Speaking (initial\<lparr>currentStatus := Error, onStatusChange := True\<rparr>)
       = (initial\<lparr>currentStatus := Error, onStatusChange := True\<rparr>, [])
   \<and> setStatuses [Listening, Processing, Error, Speaking]
         (initial\<lparr>currentStatus := Error, onStatusChange := True\<rparr>)
       = (initial\<lparr>currentStatus := Error, onStatusChange := True\<rparr>, [])
   \<and> currentStatus (fst (setStatus Connecting
         (initial\<lparr>currentStatus := Error, onStatusChange := True\<rparr>))) = Connecting"
proof -
  let ?s = "initial\<lparr>currentStatus := Error, onStatusChange := True\<rparr>"
  have h: "currentStatus ?s = Error" by simp
  show ?thesis
    using h error_latch [OF h, of Speaking "[Listening, Processing, Error, Speaking]"]
      error_latch [OF h, of Connecting "[]"]
    by simp
qed

subsection \<open>The wire codec\<close>

lemma b64_value_char: "i < 64 \<Longrightarrow> b64_value (b64_char i) = Some i"
  by (auto simp: b64_value_def b64_char_def)

lemma b64_char_props:
  "i < 64 \<Longrightarrow> \<not> ascii_whitespace (b64_char i) \<and> b64_char i \<noteq> 61 \<and> b64_char i < 128"
  by (auto simp: ascii_whitespace_def b64_char_def)

lemma sextets_lt: "\<forall>b\<in>set bs. b < 256 \<Longrightarrow> \<forall>x\<in>set (sextets bs). x < 64"
  by (induction bs rule: sextets.induct) auto

lemma octets_sextets: "\<forall>b\<in>set bs. b < 256 \<Longrightarrow> octets (sextets bs) = bs"
  by (induction bs rule: sextets.induct) auto

lemma length_sextets_padding: "(length (sextets bs) + length (padding bs)) mod 4 = 0"
  by (induction bs rule: sextets.induct) auto

lemma length_sextets_mod: "length (sextets bs) mod 4 \<noteq> 1"
  by (induction bs rule: sextets.induct) auto

lemma padding_cases: "padding bs = [] \<or> padding bs = [61] \<or> padding bs = [61, 61]"
  by (induction bs rule: sextets.induct) auto

lemma strip_padding_chars:
  assumes "\<forall>x\<in>set xs. x \<noteq> 61" and "(length xs + length p) mod 4 = 0"
    and "p = [] \<or> p = [61] \<or> p = [61, 61]"
  shows "strip_padding (xs @ p) = xs"
proof (cases "xs = []")
  case True
  with assms show ?thesis by (auto simp: strip_padding_def)
next
  case False
  then have l: "last xs \<noteq> 61" using assms(1) last_in_set by blast
  from assms(3) consider "p = []" | "p = [61]" | "p = [61, 61]" by blast
  then show ?thesis
  proof cases
    case 1
    with False l assms(2) show ?thesis by (simp add: strip_padding_def)
  next
    case 2
    with False l assms(2) show ?thesis by (simp add: strip_padding_def butlast_append)
  next
    case 3
    have "xs @ [61, 61] = (xs @ [61]) @ [61]" by simp
    then have b: "butlast (xs @ [61, 61]) = xs @ [61]" by (simp only: butlast_snoc)
    with 3 False l assms(2) show ?thesis by (simp add: strip_padding_def)
  qed
qed

lemma those_map_Some:
  "\<forall>x\<in>set xs. f x = Some (g x) \<Longrightarrow> those (map f xs) = Some (map g xs)"
  by (induction xs) auto

lemma atob_btoa_nat:
  assumes "\<forall>b\<in>set bs. b < 256"
  shows "strip_padding (filter (\<lambda>c. \<not> ascii_whitespace c)
           (map b64_char (sextets bs) @ padding bs))
         = map b64_char (sextets bs)"
proof -
  have s: "\<forall>x\<in>set (sextets bs). x < 64" using assms by (rule sextets_lt)
  have p: "\<forall>c\<in>set (padding bs). \<not> ascii_whitespace c"
    using padding_cases [of bs] by (auto simp: ascii_whitespace_def)
  have f: "filter (\<lambda>c. \<not> ascii_whitespace c) (map b64_char (sextets bs) @ padding bs)
           = map b64_char (sextets bs) @ padding bs"
    using s p b64_char_props by (auto simp: filter_id_conv)
  have n: "\<forall>x\<in>set (map b64_char (sextets bs)). x \<noteq> 61" using s b64_char_props by auto
  show ?thesis
    unfolding f
    by (rule strip_padding_chars [OF n _ padding_cases]) (simp add: length_sextets_padding)
qed

lemma unat_byte_lt: "unat (b :: byte) < 256"
  using unsigned_less [of b, where 'a = nat] by simp

lemma unat_ucast_byte: "unat (ucast (b :: byte) :: 16 word) = unat b"
  by (simp add: unsigned_ucast_eq take_bit_nat_eq_self_iff)
     (rule less_trans [OF unat_byte_lt], simp)

lemma ucast_byte_le: "\<not> 255 < (ucast (b :: byte) :: 16 word)"
  using unat_byte_lt [of b] by (simp add: word_less_nat_alt unat_ucast_byte)

lemma unat_of_nat_16: "n < 65536 \<Longrightarrow> unat (word_of_nat n :: 16 word) = n"
  by (simp add: unsigned_of_nat take_bit_nat_eq_self_iff)

lemma ucast_ucast_byte: "(ucast (ucast (b :: byte) :: 16 word) :: byte) = b"
  by (rule word_eq_iff_unsigned [where 'a = nat, THEN iffD2])
     (simp add: unsigned_ucast_eq take_bit_nat_eq_self_iff take_bit_word_eq_self
        less_trans [OF unat_byte_lt])

lemma encode_eq:
  "encode bytes = Inr (map word_of_nat
     (map b64_char (sextets (map unat bytes)) @ padding (map unat bytes)))"
  by (simp add: encode_def btoa_def list_ex_iff ucast_byte_le unat_ucast_byte o_def)

lemma unat_chars:
  assumes "\<forall>c\<in>set cs. c < 128"
  shows "map unat (map word_of_nat cs :: jsstring) = cs"
  using assms by (induction cs) (simp_all add: unat_of_nat_16)

lemma decode_encode: "encode b = Inr s \<Longrightarrow> decode s = Inr b"
proof -
  assume e: "encode b = Inr s"
  let ?bs = "map unat b"
  let ?cs = "map b64_char (sextets ?bs) @ padding ?bs"
  have bs: "\<forall>x\<in>set ?bs. x < 256" by (simp add: unat_byte_lt)
  have sx: "\<forall>x\<in>set (sextets ?bs). x < 64" using bs by (rule sextets_lt)
  have s: "s = map word_of_nat ?cs" using e by (simp add: encode_eq)
  have "\<forall>c\<in>set ?cs. c < 128"
    using sx b64_char_props padding_cases [of ?bs] by auto
  then have u: "map unat s = ?cs" unfolding s by (rule unat_chars)
  have t: "those (map b64_value (map b64_char (sextets ?bs))) = Some (sextets ?bs)"
    using those_map_Some [of "map b64_char (sextets ?bs)" b64_value "\<lambda>c. the (b64_value c)"]
      sx by (simp add: b64_value_char o_def map_idI)
  have "atob s = Inr (map word_of_nat ?bs)"
    unfolding atob_def u atob_btoa_nat [OF bs]
    using length_sextets_mod [of ?bs]
    by (simp add: t octets_sextets [OF bs] del: map_map)
  then show ?thesis
    by (simp add: decode_def o_def ucast_ucast_byte)
qed

lemma encode_total: "\<exists>s. encode b = Inr s"
  by (simp add: encode_eq)




lemma view_pcm16le:
  "Uint8Array_view (map (\<lambda>x. ToInt16 (times x 32768)) samples) = pcm16le samples"
  by (simp add: Uint8Array_view_def pcm16le_def int16_bytes_def o_def Let_def)

lemma createBlob_decodes:
  "\<exists>blob. createBlob samples = Inr blob \<and> mimeType blob = js ''audio/pcm;rate=16000''
     \<and> decode (data blob) = Inr (pcm16le samples)"
proof -
  obtain s where s: "encode (pcm16le samples) = Inr s" using encode_total by blast
  then have "decode s = Inr (pcm16le samples)" by (rule decode_encode)
  with s show ?thesis by (simp add: createBlob_def view_pcm16le)
qed

lemma length_int16_elements: "length (int16_elements bytes) = length bytes div 2"
  by (induction bytes rule: int16_elements.induct) simp_all

lemma int16_elements_nth:
  "i < length bytes div 2 \<Longrightarrow>
   int16_elements bytes ! i = ucast (bytes ! (2 * i)) OR push_bit 8 (ucast (bytes ! (2 * i + 1)))"
proof (induction bytes arbitrary: i rule: int16_elements.induct)
  case (1 lo hi r)
  then show ?case by (cases i) simp_all
qed simp_all

lemma decodeAudioData_mono:
  assumes "even (length bytes)" and "bytes \<noteq> []"
  shows "decodeAudioData bytes 24000 1 =
     Inr \<lparr> sampleRate = 24000, frames = length bytes div 2,
           channelData = [map normalized (int16_elements bytes)] \<rparr>"
proof -
  have "length bytes \<noteq> 0" using assms(2) by simp
  with assms(1) have "length bytes div 2 \<noteq> 0" by presburger
  moreover have "map (\<lambda>i. real_of_int (sint (int16_elements bytes ! i)) / 32768)
                   [0 ..< length (int16_elements bytes)]
                 = map normalized (int16_elements bytes)"
    by (rule nth_equalityI) (simp_all add: normalized_def)
  ultimately show ?thesis
    using assms(1)
    by (simp add: decodeAudioData_def Int16Array_view_def createBuffer_def
        length_int16_elements)
qed




text \<open>
  Claim C9. The base64 framing is lossless: \<open>encode\<close> always produces a string and
  \<open>decode\<close> gives the bytes back. \<open>createBlob\<close> always produces a block, labelled
  \<open>audio/pcm;rate=16000\<close>, whose base64 text decodes to the samples times 32768 stored
  as 16-bit signed integers, low byte first. \<open>decodeAudioData\<close>, on an even and positive
  number of bytes at 24 kHz mono, gives one channel with one sample per pair of bytes:
  the signed 16-bit little-endian value divided by 32768.
\<close>

theorem wire_codec:
  "(\<exists>s. encode b = Inr s \<and> decode s = Inr b)
   \<and> (\<exists>blob. createBlob samples = Inr blob
         \<and> mimeType blob = js ''audio/pcm;rate=16000''
         \<and> decode (data blob) = Inr (pcm16le samples))
   \<and> (even (length bytes) \<and> bytes \<noteq> [] \<longrightarrow>
        (\<exists>buffer. decodeAudioData bytes 24000 1 = Inr buffer
           \<and> sampleRate buffer = 24000 \<and> frames buffer = length bytes div 2
           \<and> length (channelData buffer) = 1
           \<and> length (channelData buffer ! 0) = length bytes div 2
           \<and> (\<forall>i < length bytes div 2.
                 channelData buffer ! 0 ! i =
                   normalized (ucast (bytes ! (2 * i)) OR push_bit 8 (ucast (bytes ! (2 * i + 1)))))))"
proof (intro conjI impI)
  show "\<exists>s. encode b = Inr s \<and> decode s = Inr b"
    using encode_total [of b] decode_encode by blast
  show "\<exists>blob. createBlob samples = Inr blob \<and> mimeType blob = js ''audio/pcm;rate=16000''
         \<and> decode (data blob) = Inr (pcm16le samples)"
    by (rule createBlob_decodes)
next
  assume "even (length bytes) \<and> bytes \<noteq> []"
  then have d: "decodeAudioData bytes 24000 1 =
     Inr \<lparr> sampleRate = 24000, frames = length bytes div 2,
           channelData = [map normalized (int16_elements bytes)] \<rparr>"
    using decodeAudioData_mono [of bytes] by blast
  show "\<exists>buffer. decodeAudioData bytes 24000 1 = Inr buffer
           \<and> sampleRate buffer = 24000 \<and> frames buffer = length bytes div 2
           \<and> length (channelData buffer) = 1
           \<and> length (channelData buffer ! 0) = length bytes div 2
           \<and> (\<forall>i < length bytes div 2.
                 channelData buffer ! 0 ! i =
                   normalized (ucast (bytes ! (2 * i)) OR push_bit 8 (ucast (bytes ! (2 * i + 1)))))"
    unfolding d by (simp add: length_int16_elements int16_elements_nth)
qed

theorem wire_codec_witness:
  "(\<exists>s. encode [72, 105] = Inr s \<and> decode s = Inr [72, 105])
   \<and> (\<exists>blob. createBlob [Num (1 / 2), Num (- 1)] = Inr blob
         \<and> mimeType blob = js ''audio/pcm;rate=16000''
         \<and> decode (data blob) = Inr [0, 64, 0, 128])
   \<and> (\<exists>buffer. decodeAudioData [0, 64, 0, 128] 24000 1 = Inr buffer
         \<and> channelData buffer ! 0 ! 0 = 1 / 2 \<and> channelData buffer ! 0 ! 1 = - 1)"
proof -
  let ?bytes = "[0, 64, 0, 128] :: byte list"
  have e: "even (length ?bytes) \<and> ?bytes \<noteq> []" by simp
  have p: "pcm16le [Num (1 / 2), Num (- 1)] = ?bytes"
    by (simp add: pcm16le_def js_truncate_def)
  have n: "normalized (ucast (?bytes ! (2 * 0)) OR push_bit 8 (ucast (?bytes ! (2 * 0 + 1)))) = 1 / 2"
      "normalized (ucast (?bytes ! (2 * 1)) OR push_bit 8 (ucast (?bytes ! (2 * 1 + 1)))) = - 1"
    by (simp_all add: normalized_def)
  note w = wire_codec [of "[72, 105]" "[Num (1 / 2), Num (- 1)]" ?bytes]
  from w e obtain buffer where b: "decodeAudioData ?bytes 24000 1 = Inr buffer"
    and s: "\<forall>i < length ?bytes div 2. channelData buffer ! 0 ! i =
              normalized (ucast (?bytes ! (2 * i)) OR push_bit 8 (ucast (?bytes ! (2 * i + 1))))"
    by blast
  have "channelData buffer ! 0 ! 0 = 1 / 2" using s [rule_format, of 0] n(1) by simp
  moreover have "channelData buffer ! 0 ! 1 = - 1" using s [rule_format, of 1] n(2) by simp
  ultimately have "\<exists>buffer. decodeAudioData ?bytes 24000 1 = Inr buffer
         \<and> channelData buffer ! 0 ! 0 = 1 / 2 \<and> channelData buffer ! 0 ! 1 = - 1"
    using b by blast
  with w show ?thesis unfolding p by blast
qed



subsection \<open>The message handler\<close>

lemma starts_append: "starts (xs @ ys) = starts xs @ starts ys"
  by (induction xs rule: starts.induct) simp_all

lemma transcripts_append: "transcripts (xs @ ys) = transcripts xs @ transcripts ys"
  by (induction xs rule: transcripts.induct) simp_all

lemma leadUpdates_append: "leadUpdates (xs @ ys) = leadUpdates xs @ leadUpdates ys"
  by (induction xs rule: leadUpdates.induct) simp_all

lemma toolResponses_append: "toolResponses (xs @ ys) = toolResponses xs @ toolResponses ys"
  by (induction xs rule: toolResponses.induct) simp_all

lemma setStatus_events:
  "starts (snd (setStatus r s)) = []" "transcripts (snd (setStatus r s)) = []"
  "leadUpdates (snd (setStatus r s)) = []" "toolResponses (snd (setStatus r s)) = []"
  by (simp_all add: setStatus_def)

lemma setStatus_fields:
  "nextStartTime (fst (setStatus r s)) = nextStartTime s"
  "sources (fst (setStatus r s)) = sources s"
  "fresh (fst (setStatus r s)) = fresh s"
  "onTranscript (fst (setStatus r s)) = onTranscript s"
  "currentInputTranscription (fst (setStatus r s)) = currentInputTranscription s"
  "currentOutputTranscription (fst (setStatus r s)) = currentOutputTranscription s"
  "outputAudioContext (fst (setStatus r s)) = outputAudioContext s"
  "outputNode (fst (setStatus r s)) = outputNode s"
  by (simp_all add: setStatus_def)

lemma setStatus_status:
  "currentStatus (fst (setStatus r s)) =
     (if currentStatus s = Error \<and> r \<noteq> Idle \<and> r \<noteq> Connecting then Error else r)"
  by (simp add: setStatus_def)

lemma forwardCalls_events:
  "starts (fst (forwardCalls fcs s)) = []" "starts (snd (forwardCalls fcs s)) = []"
  "transcripts (fst (forwardCalls fcs s)) = []" "transcripts (snd (forwardCalls fcs s)) = []"
  by (induction fcs) (simp_all add: split_beta)

lemma forwardCalls_pair:
  "forwardCalls fcs s = (calls, sends) \<Longrightarrow>
   starts calls = [] \<and> starts sends = [] \<and> transcripts calls = [] \<and> transcripts sends = []"
  using forwardCalls_events [of fcs s] by simp

lemma flushTurn_starts: "starts (snd (flushTurn s)) = []"
  by (simp add: flushTurn_def)

lemma flushTurn_fields:
  "nextStartTime (fst (flushTurn s)) = nextStartTime s"
  "currentStatus (fst (flushTurn s)) = currentStatus s"
  "outputAudioContext (fst (flushTurn s)) = outputAudioContext s"
  "outputNode (fst (flushTurn s)) = outputNode s"
  "onTranscript (fst (flushTurn s)) = onTranscript s"
  by (simp_all add: flushTurn_def)

lemma appendTranscripts_fields:
  "nextStartTime (appendTranscripts m s) = nextStartTime s"
  "currentStatus (appendTranscripts m s) = currentStatus s"
  "outputAudioContext (appendTranscripts m s) = outputAudioContext s"
  "outputNode (appendTranscripts m s) = outputNode s"
  "onTranscript (appendTranscripts m s) = onTranscript s"
  by (simp_all add: appendTranscripts_def Let_def split: option.splits)

text \<open>What the audio branch does to the offset and which chunk it starts.\<close>

lemma playAudio_cases:
  assumes "playAudio now b s = (x, s1, pre, post)"
  shows "starts pre = [] \<and> transcripts pre = [] \<and>
         ((x \<noteq> None \<and> post = [] \<and> nextStartTime s1 = max (nextStartTime s) now) \<or>
          (x = None \<and> (\<exists>n d. post = [SourceStart n (max (nextStartTime s) now) d]
                 \<and> nextStartTime s1 = to_double (max (nextStartTime s) now + d))))"
  using assms
  by (auto simp: playAudio_def Let_def split_beta setStatus_events setStatus_fields
      split: if_splits sum.splits)


lemma interrupt_starts: "starts (snd (interrupt s)) = []"
proof -
  have "starts (map SourceStop ns) = []" for ns by (induction ns) simp_all
  then show ?thesis
    by (simp add: interrupt_def Let_def split_beta starts_append setStatus_events)
qed

lemma heard_fields:
  "nextStartTime (fst (heard m s)) = nextStartTime s"
  "currentStatus (fst (heard m s)) = currentStatus s"
  "outputAudioContext (fst (heard m s)) = outputAudioContext s"
  "outputNode (fst (heard m s)) = outputNode s"
  "onTranscript (fst (heard m s)) = onTranscript s"
  "starts (snd (heard m s)) = []"
  by (simp_all add: heard_def Let_def flushTurn_fields appendTranscripts_fields flushTurn_starts)

lemma forwarded_events:
  "starts (fst (forwarded m s)) = []" "starts (snd (forwarded m s)) = []"
  "transcripts (fst (forwarded m s)) = []" "transcripts (snd (forwarded m s)) = []"
  by (simp_all add: forwarded_def forwardCalls_events split: option.splits)

text \<open>The five ways in which the handler ends.\<close>

lemma handleMessage_cases:
  assumes "handleMessage now m s = (x, s1, ev)"
  obtains
    (malformed) "toolCall m = Some None" "x = Some TypeError" "s1 = s" "ev = []"
  | (noparts) e where "toolCall m \<noteq> Some None" "base64Audio m = Inl e" "x = Some e"
      "s1 = fst (heard m s)"
      "ev = fst (forwarded m s) @ snd (heard m s) @ snd (forwarded m s)"
  | (silent) a where "toolCall m \<noteq> Some None" "base64Audio m = Inr a"
      "\<not> ((case a of Some b \<Rightarrow> b | None \<Rightarrow> []) \<noteq> []
          \<and> outputAudioContext (fst (heard m s)) \<noteq> None \<and> outputNode (fst (heard m s)))"
      "x = None"
      "s1 = (if interrupted m then fst (interrupt (fst (heard m s))) else fst (heard m s))"
      "ev = fst (forwarded m s) @ snd (heard m s)
            @ (if interrupted m then snd (interrupt (fst (heard m s))) else [])
            @ snd (forwarded m s)"
  | (failed) b e pre post where "toolCall m \<noteq> Some None" "base64Audio m = Inr (Some b)"
      "b \<noteq> []" "outputAudioContext (fst (heard m s)) \<noteq> None" "outputNode (fst (heard m s))"
      "playAudio now b (fst (heard m s)) = (Some e, s1, pre, post)" "x = Some e"
      "ev = fst (forwarded m s) @ snd (heard m s) @ pre @ snd (forwarded m s)"
  | (played) b s3 pre post where "toolCall m \<noteq> Some None" "base64Audio m = Inr (Some b)"
      "b \<noteq> []" "outputAudioContext (fst (heard m s)) \<noteq> None" "outputNode (fst (heard m s))"
      "playAudio now b (fst (heard m s)) = (None, s3, pre, post)" "x = None"
      "s1 = (if interrupted m then fst (interrupt s3) else s3)"
      "ev = fst (forwarded m s) @ snd (heard m s) @ pre @ snd (forwarded m s) @ post
            @ (if interrupted m then snd (interrupt s3) else [])"
proof (cases "toolCall m = Some None")
  case True
  with assms malformed show ?thesis by (simp add: handleMessage_def)
next
  case tc: False
  show ?thesis
  proof (cases "base64Audio m")
    case (Inl e)
    with assms tc noparts show ?thesis by (simp add: handleMessage_def split_beta)
  next
    case (Inr a)
    let ?b = "case a of Some b \<Rightarrow> b | None \<Rightarrow> []"
    show ?thesis
    proof (cases "?b \<noteq> [] \<and> outputAudioContext (fst (heard m s)) \<noteq> None
                  \<and> outputNode (fst (heard m s))")
      case False
      with assms tc Inr silent [of a] show ?thesis
        by (auto simp: handleMessage_def split_beta Let_def split: if_splits)
    next
      case True
      then obtain b where b: "a = Some b" "b \<noteq> []" by (cases a) auto
      obtain y s3 pre post where p: "playAudio now b (fst (heard m s)) = (y, s3, pre, post)"
        by (cases "playAudio now b (fst (heard m s))") auto
      show ?thesis
      proof (cases y)
        case (Some e)
        with assms tc Inr True b p failed [of b e pre post] show ?thesis
          by (auto simp: handleMessage_def split_beta Let_def)
      next
        case None
        with assms tc Inr True b p played [of b s3 pre post] show ?thesis
          by (auto simp: handleMessage_def split_beta Let_def split: if_splits)
      qed
    qed
  qed
qed

lemma handleMessage_schedule:
  assumes "handleMessage now m s = (x, s1, ev)"
  shows "(starts ev = [] \<and> (\<not> interrupted m \<longrightarrow> nextStartTime s \<le> nextStartTime s1)) \<or>
         (\<exists>d. starts ev = [(max (nextStartTime s) now, d)]
              \<and> (\<not> interrupted m \<longrightarrow>
                    nextStartTime s1 = to_double (max (nextStartTime s) now + d)))"
  using assms
proof (cases rule: handleMessage_cases)
  case malformed
  then show ?thesis by simp
next
  case (noparts e)
  then show ?thesis by (simp add: starts_append heard_fields forwarded_events)
next
  case (silent a)
  then show ?thesis
    by (simp add: starts_append heard_fields forwarded_events interrupt_starts)
next
  case (failed b e pre post)
  from playAudio_cases [OF failed(6)] failed show ?thesis
    by (auto simp: starts_append heard_fields forwarded_events)
next
  case (played b s3 pre post)
  from playAudio_cases [OF played(6)] played show ?thesis
    by (auto simp: starts_append heard_fields forwarded_events interrupt_starts)
qed


subsection \<open>Double-precision sums\<close>

lemma ulp_pos: "0 < ulp x"
  by (simp add: ulp_def)

lemma roundTiesToEven_error: "\<bar>of_int (roundTiesToEven y) - y\<bar> \<le> 1 / 2"
  unfolding roundTiesToEven_def Let_def by (simp split: if_splits)

text \<open>A rounded number is the nearest multiple of the spacing of the doubles around it.\<close>

lemma to_double_error: "\<bar>to_double x - x\<bar> \<le> ulp x / 2"
proof -
  have "to_double x - x = (of_int (roundTiesToEven (x / ulp x)) - x / ulp x) * ulp x"
    using ulp_pos [of x] by (simp add: to_double_def left_diff_distrib)
  then have "\<bar>to_double x - x\<bar> = \<bar>of_int (roundTiesToEven (x / ulp x)) - x / ulp x\<bar> * ulp x"
    using ulp_pos [of x] by (simp add: abs_mult)
  also have "\<dots> \<le> 1 / 2 * ulp x"
    using roundTiesToEven_error [of "x / ulp x"] ulp_pos [of x]
    by (intro mult_right_mono) simp_all
  finally show ?thesis by simp
qed

lemma binade_step:
  "0 < n \<Longrightarrow> binade a e n =
     (if 2 powi (e + 1) \<le> a then binade a (e + 1) (n - 1)
      else if a < 2 powi e then binade a (e - 1) (n - 1)
      else e)"
  by (cases n) simp_all

text \<open>
  Two frames at 24000 Hz last \<open>6148914691236517 / 2 ^ 66\<close> seconds, the double nearest to
  \<open>1 / 12000\<close>. The sums of that duration \<open>d\<close> with the start times \<open>1\<close>, \<open>to_double (1 + d)\<close>
  and \<open>8\<close>, each written as one fraction, round as follows; the first is rounded up, the
  last down.
\<close>

lemma to_double_two_frames:
  "to_double (1 / 12000) = 6148914691236517 / 73786976294838206464"
  by (simp add: to_double_def ulp_def binade_step power_int_minus roundTiesToEven_def Let_def)

lemma to_double_second:
  "to_double (73793125209529442981 / 73786976294838206464)
     = 1125993731834861 / 1125899906842624"
  by (simp add: to_double_def ulp_def binade_step power_int_minus roundTiesToEven_def Let_def)
lemma to_double_third:
  "to_double (73799274124220687013 / 73786976294838206464)
     = 563043778413549 / 562949953421312"
  by (simp add: to_double_def ulp_def binade_step power_int_minus roundTiesToEven_def Let_def)
lemma to_double_eighth:
  "to_double (590301959273396888229 / 73786976294838206464)
     = 2251823269933307 / 281474976710656"
  by (simp add: to_double_def ulp_def binade_step power_int_minus roundTiesToEven_def Let_def)


subsection \<open>Playback scheduling\<close>

lemma timeline_sequential:
  "(\<not> r \<Longrightarrow> lo \<le> nextStartTime s) \<Longrightarrow> sequential lo (timeline r ms s)"
proof (induction ms arbitrary: r s lo)
  case Nil
  then show ?case by simp
next
  case (Cons p ms)
  obtain now m where p: "p = (now, m)" by (cases p)
  obtain x s1 ev where h: "handleMessage now m s = (x, s1, ev)"
    by (cases "handleMessage now m s")
  from handleMessage_schedule [OF h]
  consider "starts ev = []" "\<not> interrupted m \<longrightarrow> nextStartTime s \<le> nextStartTime s1"
    | d where "starts ev = [(max (nextStartTime s) now, d)]"
        "\<not> interrupted m \<longrightarrow> nextStartTime s1 = to_double (max (nextStartTime s) now + d)"
    by blast
  then show ?case
  proof cases
    case 1
    have "sequential lo (timeline (interrupted m \<or> r) ms s1)"
    proof (rule Cons.IH)
      assume "\<not> (interrupted m \<or> r)"
      with 1(2) Cons.prems show "lo \<le> nextStartTime s1" by simp
    qed
    with 1 show ?thesis by (simp add: p h)
  next
    case 2
    have "sequential (to_double (max (nextStartTime s) now + d)) (timeline (interrupted m) ms s1)"
    proof (rule Cons.IH)
      assume "\<not> interrupted m"
      with 2(2) show "to_double (max (nextStartTime s) now + d) \<le> nextStartTime s1" by simp
    qed
    moreover have "\<not> r \<Longrightarrow> lo \<le> max (nextStartTime s) now"
      using Cons.prems by (simp add: max.coboundedI1)
    ultimately show ?thesis using 2 by (simp add: p h)
  qed
qed

lemma sequential_not_past: "sequential lo cs \<Longrightarrow> c \<in> set cs \<Longrightarrow> clock c \<le> begins c"
  by (induction cs arbitrary: lo) auto

lemma sequential_nth:
  "sequential lo cs \<Longrightarrow> Suc k < length cs \<Longrightarrow> \<not> afterInterruption (cs ! Suc k) \<Longrightarrow>
   to_double (begins (cs ! k) + lasts (cs ! k)) \<le> begins (cs ! Suc k)"
proof (induction cs arbitrary: lo k)
  case Nil
  then show ?case by simp
next
  case (Cons c cs)
  show ?case
  proof (cases k)
    case 0
    with Cons.prems show ?thesis by (cases cs) auto
  next
    case (Suc j)
    with Cons.prems Cons.IH [of "to_double (begins c + lasts c)" j] show ?thesis by simp
  qed
qed

lemma sequential_hd:
  "sequential lo cs \<Longrightarrow> cs \<noteq> [] \<Longrightarrow> \<not> afterInterruption (hd cs) \<Longrightarrow> lo \<le> begins (hd cs)"
  by (cases cs) auto

text \<open>
  Claim C1. In every run of the message handler each chunk is started at or after the
  clock reading of its message. Chunk \<open>k + 1\<close> is started at or after the end that the
  program computed for chunk \<open>k\<close>, which is the sum of the start of chunk \<open>k\<close> and its duration
  \<open>d\<^sub>k\<close> rounded to a double, hence at most half the distance between neighbouring doubles
  below the exact sum, provided that no message from the one of chunk \<open>k\<close>
  up to the one before that of chunk \<open>k + 1\<close> carries the interruption signal; the first
  chunk is started at or after the offset that the controller had, with the same proviso.
  The interruption signal sets the offset to zero, and a rounded sum can lie below the
  exact one: the start of chunk \<open>k + 1\<close> can be less than the start of chunk \<open>k\<close> plus \<open>d\<^sub>k\<close>.
\<close>

theorem gapless_playback:
  "(\<forall>c \<in> set (timeline False ms s). clock c \<le> begins c) \<and>
   (\<forall>k. Suc k < length (timeline False ms s)
        \<and> \<not> afterInterruption (timeline False ms s ! Suc k) \<longrightarrow>
      to_double (begins (timeline False ms s ! k) + lasts (timeline False ms s ! k))
        \<le> begins (timeline False ms s ! Suc k)
      \<and> begins (timeline False ms s ! k) + lasts (timeline False ms s ! k)
          - ulp (begins (timeline False ms s ! k) + lasts (timeline False ms s ! k)) / 2
        \<le> begins (timeline False ms s ! Suc k)) \<and>
   (timeline False ms s \<noteq> [] \<and> \<not> afterInterruption (hd (timeline False ms s)) \<longrightarrow>
      nextStartTime s \<le> begins (hd (timeline False ms s)))"
proof -
  have q: "sequential (nextStartTime s) (timeline False ms s)"
    by (rule timeline_sequential) simp
  have e: "x - ulp x / 2 \<le> to_double x" for x
    using to_double_error [of x] by linarith
  have n: "to_double (begins (timeline False ms s ! k) + lasts (timeline False ms s ! k))
        \<le> begins (timeline False ms s ! Suc k)
      \<and> begins (timeline False ms s ! k) + lasts (timeline False ms s ! k)
          - ulp (begins (timeline False ms s ! k) + lasts (timeline False ms s ! k)) / 2
        \<le> begins (timeline False ms s ! Suc k)"
    if "Suc k < length (timeline False ms s)"
      "\<not> afterInterruption (timeline False ms s ! Suc k)" for k
    using sequential_nth [OF q that]
      e [of "begins (timeline False ms s ! k) + lasts (timeline False ms s ! k)"]
    by linarith
  show ?thesis
    using sequential_not_past [OF q] n sequential_hd [OF q] by blast
qed

lemma decode_silence: "decode (js ''AAAAAA=='') = Inr [0, 0, 0, 0]"
  by (simp add: js_def decode_def atob_def ascii_whitespace_def strip_padding_def b64_value_def)

lemma decodeAudioData_silence:
  "decodeAudioData [0, 0, 0, 0] 24000 (Suc 0)
     = Inr \<lparr> sampleRate = 24000, frames = 2, channelData = [[0, 0]] \<rparr>"
  by (simp add: decodeAudioData_def Int16Array_view_def createBuffer_def upt_rec)

lemma playAudio_silence:
  "playAudio now (js ''AAAAAA=='') s
     = (None,
        (fst (if currentStatus s \<noteq> Speaking then setStatus Speaking s else (s, [])))
          \<lparr>fresh := Suc (fresh s),
            nextStartTime :=
              to_double (max (nextStartTime s) now + 6148914691236517 / 73786976294838206464),
            sources := sources s @ [fresh s]\<rparr>,
        snd (if currentStatus s \<noteq> Speaking then setStatus Speaking s else (s, [])),
        [SourceStart (fresh s) (max (nextStartTime s) now)
           (6148914691236517 / 73786976294838206464)])"
  by (simp add: playAudio_def split_beta Let_def decode_silence decodeAudioData_silence
      duration_def to_double_two_frames setStatus_def)

text \<open>A message with two frames of audio, with and without the interruption signal.\<close>

lemma handleMessage_silence:
  assumes "outputAudioContext s \<noteq> None" "outputNode s"
  shows "starts (snd (snd (handleMessage now
            (emptyMessage\<lparr>modelTurn := Some (Some [Some (js ''AAAAAA=='')]), interrupted := i\<rparr>) s)))
          = [(max (nextStartTime s) now, 6148914691236517 / 73786976294838206464)]"
    and "nextStartTime (fst (snd (handleMessage now
            (emptyMessage\<lparr>modelTurn := Some (Some [Some (js ''AAAAAA=='')]), interrupted := i\<rparr>) s)))
          = (if i then 0
             else to_double (max (nextStartTime s) now + 6148914691236517 / 73786976294838206464))"
    and "outputAudioContext (fst (snd (handleMessage now
            (emptyMessage\<lparr>modelTurn := Some (Some [Some (js ''AAAAAA=='')]), interrupted := i\<rparr>) s)))
          = outputAudioContext s"
    and "outputNode (fst (snd (handleMessage now
            (emptyMessage\<lparr>modelTurn := Some (Some [Some (js ''AAAAAA=='')]), interrupted := i\<rparr>) s)))"
proof -
  have j: "js ''AAAAAA=='' \<noteq> []" by (simp add: js_def)
  let ?m = "emptyMessage\<lparr>modelTurn := Some (Some [Some (js ''AAAAAA=='')]), interrupted := i\<rparr>"
  have h: "handleMessage now ?m s =
      (case playAudio now (js ''AAAAAA=='') s of
         (x, s3, pre, post) \<Rightarrow>
           (None, fst (if i then interrupt s3 else (s3, [])),
            pre @ post @ snd (if i then interrupt s3 else (s3, []))))"
    using assms j
    by (simp add: handleMessage_def forwarded_def heard_def emptyMessage_def
        appendTranscripts_def base64Audio_def playAudio_silence split_beta Let_def)
  show "starts (snd (snd (handleMessage now ?m s)))
          = [(max (nextStartTime s) now, 6148914691236517 / 73786976294838206464)]"
    unfolding h playAudio_silence
    by (simp add: starts_append interrupt_starts setStatus_events)
  show "nextStartTime (fst (snd (handleMessage now ?m s)))
          = (if i then 0
             else to_double (max (nextStartTime s) now + 6148914691236517 / 73786976294838206464))"
    unfolding h playAudio_silence
    by (simp add: interrupt_def setStatus_def split_beta Let_def)
  show "outputAudioContext (fst (snd (handleMessage now ?m s))) = outputAudioContext s"
    unfolding h playAudio_silence
    by (simp add: interrupt_def setStatus_def split_beta Let_def)
  show "outputNode (fst (snd (handleMessage now ?m s)))"
    unfolding h playAudio_silence using assms(2)
    by (simp add: interrupt_def setStatus_def split_beta Let_def)
qed

lemma timeline_silence:
  assumes "outputAudioContext s \<noteq> None" "outputNode s"
  shows "timeline r
           ((now, emptyMessage\<lparr>modelTurn := Some (Some [Some (js ''AAAAAA=='')]),
                               interrupted := i\<rparr>) # ms) s
         = \<lparr>clock = now, begins = max (nextStartTime s) now,
              lasts = 6148914691236517 / 73786976294838206464, afterInterruption = r\<rparr>
           # timeline i ms
               (fst (snd (handleMessage now
                  (emptyMessage\<lparr>modelTurn := Some (Some [Some (js ''AAAAAA=='')]),
                                 interrupted := i\<rparr>) s)))"
  using handleMessage_silence(1) [OF assms, of now i]
  by (simp add: split_beta)

text \<open>
  Three chunks of two frames each, the first two at clock reading 1, the third at 5: the
  second starts at the rounded end of the first, the third at its clock reading.
\<close>

theorem gapless_playback_witness:
  "timeline False
     [(1, emptyMessage\<lparr>modelTurn := Some (Some [Some (js ''AAAAAA=='')]), interrupted := False\<rparr>),
      (1, emptyMessage\<lparr>modelTurn := Some (Some [Some (js ''AAAAAA=='')]), interrupted := False\<rparr>),
      (5, emptyMessage\<lparr>modelTurn := Some (Some [Some (js ''AAAAAA=='')]), interrupted := False\<rparr>)]
     (initial\<lparr>outputAudioContext := Some Running, outputNode := True\<rparr>)
   = [\<lparr>clock = 1, begins = 1, lasts = 6148914691236517 / 73786976294838206464,
        afterInterruption = False\<rparr>,
      \<lparr>clock = 1, begins = 1125993731834861 / 1125899906842624,
        lasts = 6148914691236517 / 73786976294838206464, afterInterruption = False\<rparr>,
      \<lparr>clock = 5, begins = 5, lasts = 6148914691236517 / 73786976294838206464,
        afterInterruption = False\<rparr>]
   \<and> to_double (1 + 6148914691236517 / 73786976294838206464)
       \<le> 1125993731834861 / 1125899906842624
   \<and> to_double (1125993731834861 / 1125899906842624 + 6148914691236517 / 73786976294838206464)
       \<le> 5"
proof -
  let ?m = "emptyMessage\<lparr>modelTurn := Some (Some [Some (js ''AAAAAA=='')]), interrupted := False\<rparr>"
  let ?s = "initial\<lparr>outputAudioContext := Some Running, outputNode := True\<rparr>"
  let ?T = "[\<lparr>clock = 1, begins = 1, lasts = 6148914691236517 / 73786976294838206464,
        afterInterruption = False\<rparr>,
      \<lparr>clock = 1, begins = 1125993731834861 / 1125899906842624,
        lasts = 6148914691236517 / 73786976294838206464, afterInterruption = False\<rparr>,
      \<lparr>clock = 5, begins = 5, lasts = 6148914691236517 / 73786976294838206464,
        afterInterruption = False\<rparr>]"
  have t: "timeline False [(1, ?m), (1, ?m), (5, ?m)] ?s = ?T"
    by (simp add: timeline_silence handleMessage_silence to_double_second to_double_third
        initial_def del: timeline.simps(2))
  have "\<forall>k. Suc k < length ?T \<and> \<not> afterInterruption (?T ! Suc k) \<longrightarrow>
          to_double (begins (?T ! k) + lasts (?T ! k)) \<le> begins (?T ! Suc k)
          \<and> begins (?T ! k) + lasts (?T ! k) - ulp (begins (?T ! k) + lasts (?T ! k)) / 2
              \<le> begins (?T ! Suc k)"
    using gapless_playback [of "[(1, ?m), (1, ?m), (5, ?m)]" ?s] unfolding t by blast
  from this [rule_format, of 0] this [rule_format, of "Suc 0"] t show ?thesis
    by simp
qed

text \<open>
  Against claim C1 as it is worded, with the exact sum and for every sequence of chunks:
  three chunks of two frames each at clock reading 8, the second in a message that carries
  the interruption signal. The second chunk starts at the rounded end of the first, which
  is less than the start of the first plus its duration; the third starts at its clock
  reading, before the end of the second.
\<close>

theorem playback_overlap_counterexample:
  "timeline False
     [(8, emptyMessage\<lparr>modelTurn := Some (Some [Some (js ''AAAAAA=='')]), interrupted := False\<rparr>),
      (8, emptyMessage\<lparr>modelTurn := Some (Some [Some (js ''AAAAAA=='')]), interrupted := True\<rparr>),
      (8, emptyMessage\<lparr>modelTurn := Some (Some [Some (js ''AAAAAA=='')]), interrupted := False\<rparr>)]
     (initial\<lparr>outputAudioContext := Some Running, outputNode := True\<rparr>)
   = [\<lparr>clock = 8, begins = 8, lasts = 6148914691236517 / 73786976294838206464,
        afterInterruption = False\<rparr>,
      \<lparr>clock = 8, begins = 2251823269933307 / 281474976710656,
        lasts = 6148914691236517 / 73786976294838206464, afterInterruption = False\<rparr>,
      \<lparr>clock = 8, begins = 8, lasts = 6148914691236517 / 73786976294838206464,
        afterInterruption = True\<rparr>]
   \<and> \<not> (8 + 6148914691236517 / 73786976294838206464
          \<le> (2251823269933307 / 281474976710656 :: real))
   \<and> \<not> (2251823269933307 / 281474976710656 + 6148914691236517 / 73786976294838206464
          \<le> (8 :: real))"
  by (simp add: timeline_silence handleMessage_silence to_double_eighth initial_def
      del: timeline.simps(2))

subsection \<open>Interruption\<close>

lemma interrupt_fields:
  "sources (fst (interrupt s)) = []"
  "nextStartTime (fst (interrupt s)) = 0"
  "lastUserInteraction (fst (interrupt s)) = 0"
  "\<not> hasSpokenOnce (fst (interrupt s))"
  "currentOutputTranscription (fst (interrupt s)) = []"
  "currentStatus (fst (interrupt s)) = (if currentStatus s = Error then Error else Listening)"
  by (simp_all add: interrupt_def Let_def split_beta setStatus_def)

lemma playAudio_status:
  "playAudio now b s = (x, s1, pre, post) \<Longrightarrow>
   (currentStatus s1 = Error) = (currentStatus s = Error)"
  by (auto simp: playAudio_def Let_def split_beta setStatus_def split: if_splits sum.splits)

text \<open>The output accumulator has no influence on what the handler does besides flushing it.\<close>

lemma forwardCalls_output:
  "forwardCalls fcs (s\<lparr>currentOutputTranscription := a\<rparr>) = forwardCalls fcs s"
  by (induction fcs) simp_all

lemma forwarded_output:
  "forwarded m (s\<lparr>currentOutputTranscription := a\<rparr>) = forwarded m s"
  by (simp add: forwarded_def forwardCalls_output split: option.splits)

lemma appendTranscripts_eq:
  "appendTranscripts m s =
     s\<lparr>currentOutputTranscription :=
          currentOutputTranscription s @ fragment (outputTranscriptionText m),
        currentInputTranscription :=
          currentInputTranscription s @ fragment (inputTranscriptionText m)\<rparr>"
proof (cases "outputTranscriptionText m")
  case None
  then show ?thesis
    by (cases "inputTranscriptionText m") (simp_all add: appendTranscripts_def fragment_def)
next
  case (Some t)
  then show ?thesis
    by (cases "inputTranscriptionText m") (simp_all add: appendTranscripts_def fragment_def)
qed

lemma flushTurn_eq:
  "fst (flushTurn s) =
     s\<lparr>currentInputTranscription :=
          (if nonblank (currentInputTranscription s) \<and> onTranscript s then []
           else currentInputTranscription s),
        currentOutputTranscription :=
          (if nonblank (currentOutputTranscription s) \<and> onTranscript s then []
           else currentOutputTranscription s)\<rparr>"
  by (simp add: flushTurn_def nonblank_def split_beta)

lemma heard_output:
  "\<exists>a'. fst (heard m (s\<lparr>currentOutputTranscription := a\<rparr>))
        = (fst (heard m s))\<lparr>currentOutputTranscription := a'\<rparr>"
proof (cases "turnComplete m")
  case False
  then have "fst (heard m (s\<lparr>currentOutputTranscription := a\<rparr>))
      = (fst (heard m s))\<lparr>currentOutputTranscription :=
           a @ fragment (outputTranscriptionText m)\<rparr>"
    by (simp add: heard_def appendTranscripts_eq)
  then show ?thesis by (rule exI)
next
  case True
  let ?o = "a @ fragment (outputTranscriptionText m)"
  let ?i = "currentInputTranscription s @ fragment (inputTranscriptionText m)"
  from True have "fst (heard m (s\<lparr>currentOutputTranscription := a\<rparr>))
      = (fst (heard m s))\<lparr>currentOutputTranscription :=
           (if nonblank ?o \<and> onTranscript s then [] else ?o)\<rparr>"
    by (simp add: heard_def appendTranscripts_eq flushTurn_eq)
  then show ?thesis by (rule exI)
qed

lemma playAudio_output:
  "playAudio now b (s\<lparr>currentOutputTranscription := a\<rparr>)
     = (case playAudio now b s of
          (x, s1, pre, post) \<Rightarrow> (x, s1\<lparr>currentOutputTranscription := a\<rparr>, pre, post))"
  by (simp add: playAudio_def Let_def split_beta setStatus_def split: sum.splits)

lemma interrupt_output:
  "interrupt (s\<lparr>currentOutputTranscription := a\<rparr>) = interrupt s"
  by (simp add: interrupt_def Let_def split_beta setStatus_def)

text \<open>The outcome and the final state of the handler, without its effects.\<close>

lemma handleMessage_outcome:
  "fst (handleMessage now m s) =
     (if toolCall m = Some None then Some TypeError
      else case base64Audio m of
             Inl e \<Rightarrow> Some e
           | Inr a \<Rightarrow>
               if playable a (fst (heard m s))
               then fst (playAudio now (case a of Some b \<Rightarrow> b | None \<Rightarrow> []) (fst (heard m s)))
               else None)"
proof -
  obtain x s1 ev where h: "handleMessage now m s = (x, s1, ev)"
    by (cases "handleMessage now m s")
  from h show ?thesis
    by (cases rule: handleMessage_cases) (auto simp: h playable_def)
qed

lemma handleMessage_state:
  "fst (snd (handleMessage now m s)) =
     (if toolCall m = Some None then s
      else case base64Audio m of
             Inl e \<Rightarrow> fst (heard m s)
           | Inr a \<Rightarrow>
               if playable a (fst (heard m s))
               then (case playAudio now (case a of Some b \<Rightarrow> b | None \<Rightarrow> []) (fst (heard m s)) of
                       (x, s3, pre, post) \<Rightarrow>
                         if x = None \<and> interrupted m then fst (interrupt s3) else s3)
               else if interrupted m then fst (interrupt (fst (heard m s)))
               else fst (heard m s))"
proof -
  obtain x s1 ev where h: "handleMessage now m s = (x, s1, ev)"
    by (cases "handleMessage now m s")
  from h show ?thesis
    by (cases rule: handleMessage_cases) (auto simp: h playable_def)
qed

lemma playable_output:
  "playable a (u\<lparr>currentOutputTranscription := c\<rparr>) = playable a u"
  by (simp add: playable_def)

lemma handleMessage_output:
  assumes "interrupted m"
  shows "fst (handleMessage now m (s\<lparr>currentOutputTranscription := a\<rparr>))
           = fst (handleMessage now m s)"
    and "fst (handleMessage now m s) = None \<Longrightarrow>
         fst (snd (handleMessage now m (s\<lparr>currentOutputTranscription := a\<rparr>)))
           = fst (snd (handleMessage now m s))"
proof -
  obtain a' where h: "fst (heard m (s\<lparr>currentOutputTranscription := a\<rparr>))
        = (fst (heard m s))\<lparr>currentOutputTranscription := a'\<rparr>"
    using heard_output by blast
  show o: "fst (handleMessage now m (s\<lparr>currentOutputTranscription := a\<rparr>))
           = fst (handleMessage now m s)"
    unfolding handleMessage_outcome h playable_output playAudio_output
    by (simp add: split_beta split: sum.splits)
  assume n: "fst (handleMessage now m s) = None"
  then have tc: "toolCall m \<noteq> Some None"
    by (auto simp: handleMessage_outcome)
  show "fst (snd (handleMessage now m (s\<lparr>currentOutputTranscription := a\<rparr>)))
           = fst (snd (handleMessage now m s))"
  proof (cases "base64Audio m")
    case (Inl e)
    with n tc show ?thesis by (simp add: handleMessage_outcome)
  next
    case (Inr b)
    show ?thesis
    proof (cases "playable b (fst (heard m s))")
      case False
      with Inr tc assms show ?thesis
        by (simp add: handleMessage_state h playable_output interrupt_output)
    next
      case True
      obtain x s3 pre post where
        p: "playAudio now (case b of Some b \<Rightarrow> b | None \<Rightarrow> []) (fst (heard m s)) = (x, s3, pre, post)"
        by (cases "playAudio now (case b of Some b \<Rightarrow> b | None \<Rightarrow> []) (fst (heard m s))") auto
      with n tc Inr True have "x = None" by (simp add: handleMessage_outcome)
      with Inr tc assms True p show ?thesis
        by (simp add: handleMessage_state h playable_output playAudio_output interrupt_output)
    qed
  qed
qed


lemma handleMessage_interrupted:
  assumes "interrupted m" "fst (handleMessage now m s) = None"
  shows "sources (fst (snd (handleMessage now m s))) = []"
    "nextStartTime (fst (snd (handleMessage now m s))) = 0"
    "lastUserInteraction (fst (snd (handleMessage now m s))) = 0"
    "\<not> hasSpokenOnce (fst (snd (handleMessage now m s)))"
    "currentOutputTranscription (fst (snd (handleMessage now m s))) = []"
    "currentStatus (fst (snd (handleMessage now m s)))
       = (if currentStatus s = Error then Error else Listening)"
proof -
  obtain x s1 ev where h: "handleMessage now m s = (x, s1, ev)"
    by (cases "handleMessage now m s")
  with assms(2) have x: "x = None" by simp
  have "sources s1 = [] \<and> nextStartTime s1 = 0 \<and> lastUserInteraction s1 = 0
      \<and> \<not> hasSpokenOnce s1 \<and> currentOutputTranscription s1 = []
      \<and> currentStatus s1 = (if currentStatus s = Error then Error else Listening)"
    using h
  proof (cases rule: handleMessage_cases)
    case (silent a)
    with assms(1) show ?thesis by (simp add: interrupt_fields heard_fields)
  next
    case (played b s3 pre post)
    from playAudio_status [OF played(6)] played(8) assms(1) show ?thesis
      by (simp add: interrupt_fields heard_fields)
  qed (use x in simp_all)
  then show "sources (fst (snd (handleMessage now m s))) = []"
    "nextStartTime (fst (snd (handleMessage now m s))) = 0"
    "lastUserInteraction (fst (snd (handleMessage now m s))) = 0"
    "\<not> hasSpokenOnce (fst (snd (handleMessage now m s)))"
    "currentOutputTranscription (fst (snd (handleMessage now m s))) = []"
    "currentStatus (fst (snd (handleMessage now m s)))
       = (if currentStatus s = Error then Error else Listening)"
    by (simp_all add: h)
qed

lemma handleMessage_completes:
  "toolCall m \<noteq> Some None \<Longrightarrow> modelTurn m = None \<Longrightarrow> fst (handleMessage now m s) = None"
  by (simp add: handleMessage_outcome base64Audio_def playable_def)

text \<open>
  Claim C4, as the code has it. When the handler has run to its end on a message that
  carries the interruption signal (it does whenever the message has no malformed tool call
  and no model turn), the set of active segments is empty, the offset is zero, the
  voice-activity bookkeeping is reset and the output accumulator is empty; the status is
  \<open>listening\<close>, except that a status \<open>error\<close> stays, by the latch of \<open>setStatus\<close>. The
  text that the accumulator held has no influence on the controller afterwards, hence on
  no later flush.
\<close>

theorem interruption_clears:
  "interrupted m \<Longrightarrow>
   (toolCall m \<noteq> Some None \<and> modelTurn m = None \<longrightarrow> fst (handleMessage now m s) = None) \<and>
   (fst (handleMessage now m s) = None \<longrightarrow>
      sources (fst (snd (handleMessage now m s))) = [] \<and>
      nextStartTime (fst (snd (handleMessage now m s))) = 0 \<and>
      lastUserInteraction (fst (snd (handleMessage now m s))) = 0 \<and>
      \<not> hasSpokenOnce (fst (snd (handleMessage now m s))) \<and>
      currentOutputTranscription (fst (snd (handleMessage now m s))) = [] \<and>
      currentStatus (fst (snd (handleMessage now m s)))
        = (if currentStatus s = Error then Error else Listening) \<and>
      (\<forall>a later.
         run later (fst (snd (handleMessage now m (s\<lparr>currentOutputTranscription := a\<rparr>))))
           = run later (fst (snd (handleMessage now m s)))))"
  using handleMessage_interrupted [of m now s] handleMessage_completes [of m now s]
    handleMessage_output(2) [of m now s]
  by simp

theorem interruption_clears_witness:
  "interrupted (emptyMessage\<lparr>interrupted := True\<rparr>) \<and>
   fst (handleMessage 7 (emptyMessage\<lparr>interrupted := True\<rparr>)
          (initial\<lparr>currentStatus := Speaking, sources := [0, 1], nextStartTime := 9,
                   currentOutputTranscription := js ''Hel''\<rparr>)) = None \<and>
   sources (fst (snd (handleMessage 7 (emptyMessage\<lparr>interrupted := True\<rparr>)
          (initial\<lparr>currentStatus := Speaking, sources := [0, 1], nextStartTime := 9,
                   currentOutputTranscription := js ''Hel''\<rparr>)))) = [] \<and>
   currentStatus (fst (snd (handleMessage 7 (emptyMessage\<lparr>interrupted := True\<rparr>)
          (initial\<lparr>currentStatus := Speaking, sources := [0, 1], nextStartTime := 9,
                   currentOutputTranscription := js ''Hel''\<rparr>)))) = Listening \<and>
   currentOutputTranscription (fst (snd (handleMessage 7 (emptyMessage\<lparr>interrupted := True\<rparr>)
          (initial\<lparr>currentStatus := Speaking, sources := [0, 1], nextStartTime := 9,
                   currentOutputTranscription := js ''Hel''\<rparr>)))) = []"
proof -
  let ?m = "emptyMessage\<lparr>interrupted := True\<rparr>"
  let ?s = "initial\<lparr>currentStatus := Speaking, sources := [0, 1], nextStartTime := 9,
                   currentOutputTranscription := js ''Hel''\<rparr>"
  have i: "interrupted ?m" by simp
  have c: "toolCall ?m \<noteq> Some None \<and> modelTurn ?m = None" by (simp add: emptyMessage_def)
  from interruption_clears [OF i, of 7 ?s] c i show ?thesis by simp
qed

text \<open>
  The claim as stated fails where the status is \<open>error\<close>: the interruption leaves it.
\<close>

theorem interruption_status_counterexample:
  "interrupted (emptyMessage\<lparr>interrupted := True\<rparr>) \<and>
   fst (handleMessage 0 (emptyMessage\<lparr>interrupted := True\<rparr>)
          (initial\<lparr>currentStatus := Error\<rparr>)) = None \<and>
   currentStatus (fst (snd (handleMessage 0 (emptyMessage\<lparr>interrupted := True\<rparr>)
          (initial\<lparr>currentStatus := Error\<rparr>)))) = Error \<and>
   currentStatus (fst (snd (handleMessage 0 (emptyMessage\<lparr>interrupted := True\<rparr>)
          (initial\<lparr>currentStatus := Error\<rparr>)))) \<noteq> Listening"
  by (simp add: handleMessage_def forwarded_def heard_def emptyMessage_def appendTranscripts_def
      base64Audio_def interrupt_def setStatus_def initial_def)

subsection \<open>Transcripts\<close>

lemma transcripts_stops: "transcripts (map SourceStop ns) = []"
  by (induction ns) simp_all

lemma interrupt_transcripts: "transcripts (snd (interrupt s)) = []"
  by (simp add: interrupt_def Let_def split_beta transcripts_append transcripts_stops
      setStatus_events)

lemma playAudio_transcripts:
  assumes "playAudio now b s = (x, s1, pre, post)"
  shows "transcripts pre = []" "transcripts post = []"
    "currentInputTranscription s1 = currentInputTranscription s"
    "currentOutputTranscription s1 = currentOutputTranscription s"
    "onTranscript s1 = onTranscript s"
  using assms
  by (auto simp: playAudio_def Let_def split_beta setStatus_def split: if_splits sum.splits)

lemma handleMessage_transcripts:
  "transcripts (snd (snd (handleMessage now m s)))
     = (if toolCall m = Some None then [] else transcripts (snd (heard m s)))"
proof -
  obtain x s1 ev where h: "handleMessage now m s = (x, s1, ev)"
    by (cases "handleMessage now m s")
  from h show ?thesis
  proof (cases rule: handleMessage_cases)
    case (failed b e pre post)
    with playAudio_transcripts(1) [OF failed(6)] show ?thesis
      by (simp add: h transcripts_append forwarded_events)
  next
    case (played b s3 pre post)
    with playAudio_transcripts(1,2) [OF played(6)] show ?thesis
      by (simp add: h transcripts_append forwarded_events interrupt_transcripts)
  qed (simp_all add: h transcripts_append forwarded_events interrupt_transcripts)
qed

lemma handleMessage_accumulators:
  assumes "toolCall m \<noteq> Some None" "\<not> interrupted m"
  shows "currentInputTranscription (fst (snd (handleMessage now m s)))
           = currentInputTranscription (fst (heard m s))"
    "currentOutputTranscription (fst (snd (handleMessage now m s)))
           = currentOutputTranscription (fst (heard m s))"
    "onTranscript (fst (snd (handleMessage now m s))) = onTranscript s"
proof -
  obtain x s1 ev where h: "handleMessage now m s = (x, s1, ev)"
    by (cases "handleMessage now m s")
  have "currentInputTranscription s1 = currentInputTranscription (fst (heard m s))
      \<and> currentOutputTranscription s1 = currentOutputTranscription (fst (heard m s))
      \<and> onTranscript s1 = onTranscript s"
    using h
  proof (cases rule: handleMessage_cases)
    case (failed b e pre post)
    with playAudio_transcripts(3-5) [OF failed(6)] show ?thesis
      by (simp add: heard_fields)
  next
    case (played b s3 pre post)
    with playAudio_transcripts(3-5) [OF played(6)] assms show ?thesis
      by (simp add: heard_fields)
  qed (use assms in \<open>simp_all add: heard_fields\<close>)
  then show "currentInputTranscription (fst (snd (handleMessage now m s)))
           = currentInputTranscription (fst (heard m s))"
    "currentOutputTranscription (fst (snd (handleMessage now m s)))
           = currentOutputTranscription (fst (heard m s))"
    "onTranscript (fst (snd (handleMessage now m s))) = onTranscript s"
    by (simp_all add: h)
qed

text \<open>What the transcription blocks and the turn-complete block do.\<close>

lemma heard_fragments:
  "\<not> turnComplete m \<Longrightarrow> transcripts (snd (heard m s)) = []"
  "\<not> turnComplete m \<Longrightarrow> currentInputTranscription (fst (heard m s))
       = currentInputTranscription s @ fragment (inputTranscriptionText m)"
  "\<not> turnComplete m \<Longrightarrow> currentOutputTranscription (fst (heard m s))
       = currentOutputTranscription s @ fragment (outputTranscriptionText m)"
  by (simp_all add: heard_def appendTranscripts_eq)

lemma flushTurn_transcripts:
  "transcripts (snd (flushTurn s)) =
     (if nonblank (currentInputTranscription s) \<and> onTranscript s
      then [(currentInputTranscription s, User)] else [])
     @ (if nonblank (currentOutputTranscription s) \<and> onTranscript s
        then [(currentOutputTranscription s, Model)] else [])"
  by (simp add: flushTurn_def nonblank_def split_beta)

lemma heard_turn:
  assumes "turnComplete m"
  shows "transcripts (snd (heard m s)) =
     (if nonblank (currentInputTranscription s @ fragment (inputTranscriptionText m))
         \<and> onTranscript s
      then [(currentInputTranscription s @ fragment (inputTranscriptionText m), User)] else [])
     @ (if nonblank (currentOutputTranscription s @ fragment (outputTranscriptionText m))
           \<and> onTranscript s
        then [(currentOutputTranscription s @ fragment (outputTranscriptionText m), Model)]
        else [])"
    and "currentInputTranscription (fst (heard m s)) =
     (if nonblank (currentInputTranscription s @ fragment (inputTranscriptionText m))
         \<and> onTranscript s
      then [] else currentInputTranscription s @ fragment (inputTranscriptionText m))"
    and "currentOutputTranscription (fst (heard m s)) =
     (if nonblank (currentOutputTranscription s @ fragment (outputTranscriptionText m))
         \<and> onTranscript s
      then [] else currentOutputTranscription s @ fragment (outputTranscriptionText m))"
  using assms
  by (simp_all add: heard_def flushTurn_transcripts flushTurn_eq appendTranscripts_eq)

lemma run_append:
  "run (ms @ ms') s = (case run ms s of (s1, e1) \<Rightarrow>
                         (case run ms' s1 of (s2, e2) \<Rightarrow> (s2, e1 @ e2)))"
  by (induction ms arbitrary: s) (auto simp: split_beta)

lemma run_fragments:
  assumes "\<forall>(now, m) \<in> set ms. \<not> turnComplete m \<and> \<not> interrupted m \<and> toolCall m \<noteq> Some None"
  shows "transcripts (snd (run ms s)) = [] \<and>
         currentInputTranscription (fst (run ms s))
           = currentInputTranscription s @ inputFragments ms \<and>
         currentOutputTranscription (fst (run ms s))
           = currentOutputTranscription s @ outputFragments ms \<and>
         onTranscript (fst (run ms s)) = onTranscript s"
  using assms
proof (induction ms arbitrary: s)
  case Nil
  then show ?case by (simp add: inputFragments_def outputFragments_def)
next
  case (Cons p ms)
  obtain now m where p: "p = (now, m)" by (cases p)
  from Cons.prems p have m: "\<not> turnComplete m" "\<not> interrupted m" "toolCall m \<noteq> Some None"
    and rest: "\<forall>(now, m) \<in> set ms. \<not> turnComplete m \<and> \<not> interrupted m \<and> toolCall m \<noteq> Some None"
    by auto
  let ?s1 = "fst (snd (handleMessage now m s))"
  note a = handleMessage_accumulators [OF m(3) m(2), of now s]
  note t = handleMessage_transcripts [of now m s]
  from Cons.IH [OF rest, of ?s1] a t m show ?case
    by (simp add: p split_beta transcripts_append heard_fragments inputFragments_def
        outputFragments_def)
qed


lemma nonblank_Nil: "\<not> nonblank []"
  by (simp add: nonblank_def trim_def)

text \<open>
  Claim C5, as the code has it. The run is a sequence of messages that carry transcript
  fragments and no turn-complete signal, followed by one turn-complete message; no message
  of the run carries the interruption signal, and none a tool call without its list of
  function calls. Then an accumulator is flushed, once and with the role \<open>user\<close> for the
  input and \<open>model\<close> for the output, and reset to empty, when its text is not blank
  (\<open>trim()\<close> leaves something) and a transcript callback is registered; otherwise it is not
  flushed and keeps its text. The input is flushed before the output. Any message without
  fragments that follows flushes nothing. (A tool call without function calls ends the
  handler before the transcription blocks; the interruption signal empties the output
  accumulator.)
\<close>

theorem turn_flush:
  fixes ms :: "(real \<times> message) list" and tc :: message and t :: real and s :: LiveClient
  defines "inp \<equiv> currentInputTranscription s @ inputFragments (ms @ [(t, tc)])"
    and "out \<equiv> currentOutputTranscription s @ outputFragments (ms @ [(t, tc)])"
  assumes frags: "\<forall>(now, m) \<in> set ms.
                    \<not> turnComplete m \<and> \<not> interrupted m \<and> toolCall m \<noteq> Some None"
    and turn: "turnComplete tc \<and> \<not> interrupted tc \<and> toolCall tc \<noteq> Some None"
  shows "transcripts (snd (run (ms @ [(t, tc)]) s))
           = (if nonblank inp \<and> onTranscript s then [(inp, User)] else [])
             @ (if nonblank out \<and> onTranscript s then [(out, Model)] else [])
         \<and> currentInputTranscription (fst (run (ms @ [(t, tc)]) s))
           = (if nonblank inp \<and> onTranscript s then [] else inp)
         \<and> currentOutputTranscription (fst (run (ms @ [(t, tc)]) s))
           = (if nonblank out \<and> onTranscript s then [] else out)
         \<and> (\<forall>t2 m2. fragment (inputTranscriptionText m2) = []
                   \<and> fragment (outputTranscriptionText m2) = [] \<longrightarrow>
               transcripts (snd (snd (handleMessage t2 m2 (fst (run (ms @ [(t, tc)]) s)))))
                 = [])"
proof -
  let ?s1 = "fst (run ms s)"
  let ?s2 = "fst (snd (handleMessage t tc ?s1))"
  note f = run_fragments [OF frags, of s]
  have r: "run (ms @ [(t, tc)]) s
      = (?s2, snd (run ms s) @ snd (snd (handleMessage t tc ?s1)))"
    by (simp add: run_append split_beta)
  have i: "inp = currentInputTranscription ?s1 @ fragment (inputTranscriptionText tc)"
    and o: "out = currentOutputTranscription ?s1 @ fragment (outputTranscriptionText tc)"
    using f by (simp_all add: inp_def out_def inputFragments_def outputFragments_def)
  from turn have tc: "turnComplete tc" "\<not> interrupted tc" "toolCall tc \<noteq> Some None"
    by simp_all
  note a = handleMessage_accumulators [OF tc(3) tc(2), of t ?s1]
  note h = heard_turn [OF tc(1), of ?s1, folded i o]
  have c: "onTranscript ?s1 = onTranscript s" using f by simp
  have 1: "transcripts (snd (run (ms @ [(t, tc)]) s))
           = (if nonblank inp \<and> onTranscript s then [(inp, User)] else [])
             @ (if nonblank out \<and> onTranscript s then [(out, Model)] else [])"
    using f tc(3) by (simp add: r transcripts_append handleMessage_transcripts h(1) c)
  have 2: "currentInputTranscription (fst (run (ms @ [(t, tc)]) s))
           = (if nonblank inp \<and> onTranscript s then [] else inp)"
    by (simp add: r a(1) h(2) c)
  have 3: "currentOutputTranscription (fst (run (ms @ [(t, tc)]) s))
           = (if nonblank out \<and> onTranscript s then [] else out)"
    by (simp add: r a(2) h(3) c)
  have 4: "transcripts (snd (snd (handleMessage t2 m2 (fst (run (ms @ [(t, tc)]) s))))) = []"
    if "fragment (inputTranscriptionText m2) = [] \<and> fragment (outputTranscriptionText m2) = []"
    for t2 m2
  proof -
    let ?s3 = "fst (run (ms @ [(t, tc)]) s)"
    have on: "onTranscript ?s3 = onTranscript s" by (simp add: r a(3) c)
    have "transcripts (snd (heard m2 ?s3)) = []"
    proof (cases "turnComplete m2")
      case True
      show ?thesis
        unfolding heard_turn(1) [OF True] using that
        by (simp add: 2 3 on nonblank_Nil)
    next
      case False
      then show ?thesis by (simp add: heard_fragments)
    qed
    then show ?thesis by (simp add: handleMessage_transcripts)
  qed
  from 1 2 3 4 show ?thesis by blast
qed


theorem turn_flush_witness:
  "transcripts (snd (run
       [(0, emptyMessage\<lparr>inputTranscriptionText := Some (js ''hi'')\<rparr>),
        (0, emptyMessage\<lparr>outputTranscriptionText := Some (js ''yo'')\<rparr>),
        (0, emptyMessage\<lparr>turnComplete := True\<rparr>)]
       (initial\<lparr>onTranscript := True\<rparr>)))
     = [(js ''hi'', User), (js ''yo'', Model)]
   \<and> currentInputTranscription (fst (run
       [(0, emptyMessage\<lparr>inputTranscriptionText := Some (js ''hi'')\<rparr>),
        (0, emptyMessage\<lparr>outputTranscriptionText := Some (js ''yo'')\<rparr>),
        (0, emptyMessage\<lparr>turnComplete := True\<rparr>)]
       (initial\<lparr>onTranscript := True\<rparr>))) = []
   \<and> transcripts (snd (snd (handleMessage 0 (emptyMessage\<lparr>turnComplete := True\<rparr>) (fst (run
       [(0, emptyMessage\<lparr>inputTranscriptionText := Some (js ''hi'')\<rparr>),
        (0, emptyMessage\<lparr>outputTranscriptionText := Some (js ''yo'')\<rparr>),
        (0, emptyMessage\<lparr>turnComplete := True\<rparr>)]
       (initial\<lparr>onTranscript := True\<rparr>)))))) = []"
proof -
  let ?ms = "[(0 :: real, emptyMessage\<lparr>inputTranscriptionText := Some (js ''hi'')\<rparr>),
              (0, emptyMessage\<lparr>outputTranscriptionText := Some (js ''yo'')\<rparr>)]"
  let ?tc = "emptyMessage\<lparr>turnComplete := True\<rparr>"
  let ?s = "initial\<lparr>onTranscript := True\<rparr>"
  have f: "\<forall>(now, m) \<in> set ?ms.
             \<not> turnComplete m \<and> \<not> interrupted m \<and> toolCall m \<noteq> Some None"
    by (simp add: emptyMessage_def)
  have c: "turnComplete ?tc \<and> \<not> interrupted ?tc \<and> toolCall ?tc \<noteq> Some None"
    by (simp add: emptyMessage_def)
  have i: "currentInputTranscription ?s @ inputFragments (?ms @ [(0, ?tc)]) = js ''hi''"
    and o: "currentOutputTranscription ?s @ outputFragments (?ms @ [(0, ?tc)]) = js ''yo''"
    by (simp_all add: inputFragments_def outputFragments_def fragment_def emptyMessage_def
        initial_def)
  have n: "nonblank (js ''hi'')" "nonblank (js ''yo'')"
    by (simp_all add: nonblank_def trim_def js_def js_whitespace_def)
  have e: "fragment (inputTranscriptionText ?tc) = []
           \<and> fragment (outputTranscriptionText ?tc) = []"
    by (simp add: fragment_def emptyMessage_def)
  from turn_flush [OF f c, of 0 ?s, unfolded i o] n e show ?thesis
    by simp
qed

text \<open>
  The claim as stated fails on an accumulator whose text is not empty but blank: a single
  space is neither flushed nor reset.
\<close>

theorem turn_flush_blank_counterexample:
  "currentInputTranscription (fst (run
       [(0, emptyMessage\<lparr>inputTranscriptionText := Some (js '' '')\<rparr>),
        (0, emptyMessage\<lparr>turnComplete := True\<rparr>)]
       (initial\<lparr>onTranscript := True\<rparr>))) = js '' ''
   \<and> js '' '' \<noteq> []
   \<and> transcripts (snd (run
       [(0, emptyMessage\<lparr>inputTranscriptionText := Some (js '' '')\<rparr>),
        (0, emptyMessage\<lparr>turnComplete := True\<rparr>)]
       (initial\<lparr>onTranscript := True\<rparr>))) = []"
  by (simp add: handleMessage_def forwarded_def heard_def emptyMessage_def appendTranscripts_def
      base64Audio_def flushTurn_def trim_def js_whitespace_def js_def initial_def)

subsection \<open>Tool calls\<close>

lemma stops_tools:
  "leadUpdates (map SourceStop ns) = []" "toolResponses (map SourceStop ns) = []"
  by (induction ns) simp_all

lemma interrupt_tools:
  "leadUpdates (snd (interrupt s)) = []" "toolResponses (snd (interrupt s)) = []"
  by (simp_all add: interrupt_def Let_def split_beta leadUpdates_append toolResponses_append
      stops_tools setStatus_events)

lemma heard_tools:
  "leadUpdates (snd (heard m s)) = []" "toolResponses (snd (heard m s)) = []"
  by (simp_all add: heard_def Let_def flushTurn_def split_beta)

lemma playAudio_tools:
  assumes "playAudio now b s = (x, s1, pre, post)"
  shows "leadUpdates pre = []" "toolResponses pre = []"
    "leadUpdates post = []" "toolResponses post = []"
  using assms
  by (auto simp: playAudio_def Let_def split_beta setStatus_def split: if_splits sum.splits)

lemma forwardCalls_tools:
  "leadUpdates (fst (forwardCalls fcs s))
     = (if onLeadUpdate s
        then map call_args (filter (\<lambda>fc. call_name fc = Some (js ''update_lead'')) fcs)
        else [])"
  "toolResponses (snd (forwardCalls fcs s))
     = (if onLeadUpdate s \<and> sessionPromise s = Some Fulfilled
        then map (\<lambda>fc. (call_id fc, call_name fc, js ''Lead updated successfully.''))
               (filter (\<lambda>fc. call_name fc = Some (js ''update_lead'')) fcs)
        else [])"
  "leadUpdates (snd (forwardCalls fcs s)) = []"
  "toolResponses (fst (forwardCalls fcs s)) = []"
  by (induction fcs) (simp_all add: split_beta)

lemma handleMessage_tools:
  assumes "toolCall m \<noteq> Some None"
  shows "leadUpdates (snd (snd (handleMessage now m s))) = leadUpdates (fst (forwarded m s))"
    "toolResponses (snd (snd (handleMessage now m s))) = toolResponses (snd (forwarded m s))"
proof -
  obtain x s1 ev where h: "handleMessage now m s = (x, s1, ev)"
    by (cases "handleMessage now m s")
  have f: "leadUpdates (snd (forwarded m s)) = []" "toolResponses (fst (forwarded m s)) = []"
    by (simp_all add: forwarded_def forwardCalls_tools split: option.splits)
  have "leadUpdates ev = leadUpdates (fst (forwarded m s))
      \<and> toolResponses ev = toolResponses (snd (forwarded m s))"
    using h
  proof (cases rule: handleMessage_cases)
    case malformed
    with assms show ?thesis by simp
  next
    case (failed b e pre post)
    with playAudio_tools [OF failed(6)] show ?thesis
      by (simp add: leadUpdates_append toolResponses_append heard_tools f)
  next
    case (played b s3 pre post)
    with playAudio_tools [OF played(6)] show ?thesis
      by (simp add: leadUpdates_append toolResponses_append heard_tools interrupt_tools f)
  qed (simp_all add: leadUpdates_append toolResponses_append heard_tools interrupt_tools f)
  then show "leadUpdates (snd (snd (handleMessage now m s))) = leadUpdates (fst (forwarded m s))"
    "toolResponses (snd (snd (handleMessage now m s))) = toolResponses (snd (forwarded m s))"
    by (simp_all add: h)
qed

text \<open>
  Claim C8, as the code has it. For a message whose tool call lists the function calls
  \<open>fcs\<close>: when a lead-update callback is registered, it is invoked once for each call named
  \<open>update_lead\<close>, in order, with the arguments of that call, and for no other call; when
  moreover the session promise is fulfilled, one tool response per such call is sent, with
  the id and the name of the call and the result text of the success. Without a registered
  callback nothing is forwarded and no response is sent; with a session promise that is
  \<open>null\<close> or rejected no response is sent.
\<close>

theorem tool_call_forwarding:
  "toolCall m = Some (Some fcs) \<Longrightarrow>
   leadUpdates (snd (snd (handleMessage now m s)))
     = (if onLeadUpdate s
        then map call_args (filter (\<lambda>fc. call_name fc = Some (js ''update_lead'')) fcs)
        else []) \<and>
   (onLeadUpdate s \<and> sessionPromise s = Some Fulfilled \<longrightarrow>
      toolResponses (snd (snd (handleMessage now m s)))
        = map (\<lambda>fc. (call_id fc, Some (js ''update_lead''), js ''Lead updated successfully.''))
            (filter (\<lambda>fc. call_name fc = Some (js ''update_lead'')) fcs)) \<and>
   (\<not> onLeadUpdate s \<or> sessionPromise s = None \<or> sessionPromise s = Some Rejected \<longrightarrow>
      toolResponses (snd (snd (handleMessage now m s))) = [])"
proof -
  assume t: "toolCall m = Some (Some fcs)"
  then have n: "toolCall m \<noteq> Some None" by simp
  have e: "map (\<lambda>fc. (call_id fc, call_name fc, js ''Lead updated successfully.''))
             (filter (\<lambda>fc. call_name fc = Some (js ''update_lead'')) fcs)
         = map (\<lambda>fc. (call_id fc, Some (js ''update_lead''), js ''Lead updated successfully.''))
             (filter (\<lambda>fc. call_name fc = Some (js ''update_lead'')) fcs)"
    by (rule map_cong) simp_all
  show ?thesis
    unfolding handleMessage_tools [OF n]
    by (auto simp: forwarded_def t forwardCalls_tools e)
qed

theorem tool_call_forwarding_witness:
  "leadUpdates (snd (snd (handleMessage 0
      (emptyMessage\<lparr>toolCall := Some (Some
         [\<lparr>call_id = Some (js ''c1''), call_name = Some (js ''update_lead''),
            call_args = Some [(js ''phone'', js ''0100000000'')]\<rparr>,
          \<lparr>call_id = Some (js ''c2''), call_name = Some (js ''other''),
            call_args = None\<rparr>])\<rparr>)
      (initial\<lparr>onLeadUpdate := True, sessionPromise := Some Fulfilled\<rparr>))))
     = [Some [(js ''phone'', js ''0100000000'')]]
   \<and> toolResponses (snd (snd (handleMessage 0
      (emptyMessage\<lparr>toolCall := Some (Some
         [\<lparr>call_id = Some (js ''c1''), call_name = Some (js ''update_lead''),
            call_args = Some [(js ''phone'', js ''0100000000'')]\<rparr>,
          \<lparr>call_id = Some (js ''c2''), call_name = Some (js ''other''),
            call_args = None\<rparr>])\<rparr>)
      (initial\<lparr>onLeadUpdate := True, sessionPromise := Some Fulfilled\<rparr>))))
     = [(Some (js ''c1''), Some (js ''update_lead''), js ''Lead updated successfully.'')]"
proof -
  let ?fcs = "[\<lparr>call_id = Some (js ''c1''), call_name = Some (js ''update_lead''),
            call_args = Some [(js ''phone'', js ''0100000000'')]\<rparr>,
          \<lparr>call_id = Some (js ''c2''), call_name = Some (js ''other''),
            call_args = None\<rparr>]"
  let ?m = "emptyMessage\<lparr>toolCall := Some (Some ?fcs)\<rparr>"
  let ?s = "initial\<lparr>onLeadUpdate := True, sessionPromise := Some Fulfilled\<rparr>"
  have t: "toolCall ?m = Some (Some ?fcs)" by simp
  have o: "js ''other'' \<noteq> js ''update_lead''" by (simp add: js_def)
  have p: "onLeadUpdate ?s \<and> sessionPromise ?s = Some Fulfilled" by simp
  from tool_call_forwarding [OF t, of 0 ?s] p o show ?thesis by simp
qed

text \<open>
  The claim as stated fails where no lead-update callback is registered: the call named
  \<open>update_lead\<close> is not acknowledged, although the session is open.
\<close>

theorem tool_call_unregistered_counterexample:
  "toolResponses (snd (snd (handleMessage 0
      (emptyMessage\<lparr>toolCall := Some (Some
         [\<lparr>call_id = Some (js ''c1''), call_name = Some (js ''update_lead''),
            call_args = Some [(js ''phone'', js ''0100000000'')]\<rparr>])\<rparr>)
      (initial\<lparr>sessionPromise := Some Fulfilled\<rparr>)))) = []"
  by (simp add: handleMessage_def forwarded_def heard_def emptyMessage_def appendTranscripts_def
      base64Audio_def initial_def)

subsection \<open>Teardown\<close>

lemma andThen_Done:
  "andThen r f = (Done, s2, ev) \<longleftrightarrow>
     (\<exists>s1 e1 e2. r = (Done, s1, e1) \<and> f s1 = (Done, s2, e2) \<and> ev = e1 @ e2)"
  by (cases r rule: prod_cases3; cases "fst r")
     (auto simp: andThen_def split: outcome.splits prod.splits)

lemma andThen_not_Raised:
  assumes "\<forall>e. fst r \<noteq> Raised e" and "\<And>s. \<forall>e. fst (f s) \<noteq> Raised e"
  shows "fst (andThen r f) \<noteq> Raised e"
proof (cases r rule: prod_cases3)
  case (fields x s ev)
  show ?thesis
  proof (cases x)
    case Done
    obtain y s1 ev1 where f: "f s = (y, s1, ev1)" by (cases "f s" rule: prod_cases3)
    from assms(2) [of s] f have "y \<noteq> Raised e" by auto
    with fields Done f show ?thesis by (simp add: andThen_def)
  next
    case (Raised e')
    with assms(1) fields show ?thesis by simp
  next
    case Blocked
    with fields show ?thesis by (simp add: andThen_def)
  qed
qed

lemma in_steps_append:
  assumes "in_steps a b xs" "in_steps c d ys" "a \<le> b" "b \<le> c" "c \<le> d"
  shows "in_steps a d (xs @ ys)"
  using assms by (fastforce simp: in_steps_def sorted_append)

lemma in_steps_Nil: "in_steps a b []"
  by (simp add: in_steps_def)

lemma andThen_in_steps:
  assumes "in_steps a b (snd (snd r))" and "\<And>s. in_steps c d (snd (snd (f s)))"
    and "a \<le> b" "b \<le> c" "c \<le> d"
  shows "in_steps a d (snd (snd (andThen r f)))"
proof (cases r rule: prod_cases3)
  case (fields x s ev)
  show ?thesis
  proof (cases x)
    case Done
    obtain y s1 ev1 where f: "f s = (y, s1, ev1)" by (cases "f s" rule: prod_cases3)
    from assms(2) [of s] f have "in_steps c d ev1" by simp
    with assms(1) fields have "in_steps a d (ev @ ev1)"
      by (intro in_steps_append [OF _ _ assms(3-5)]) simp_all
    with fields Done f show ?thesis by (simp add: andThen_def)
  next
    case (Raised e)
    from assms(1) fields have "in_steps a d ev"
      using assms(4,5) by (fastforce simp: in_steps_def)
    with fields Raised show ?thesis by (simp add: andThen_def)
  next
    case Blocked
    from assms(1) fields have "in_steps a d ev"
      using assms(4,5) by (fastforce simp: in_steps_def)
    with fields Blocked show ?thesis by (simp add: andThen_def)
  qed
qed

lemma closeSession_steps: "in_steps 1 1 (snd (snd (closeSession env s)))"
  by (auto simp: closeSession_def in_steps_def andThen_def tryCatch_def attempt_def Let_def
      split: option.splits)

lemma stopRecorder_steps: "in_steps 2 2 (snd (snd (stopRecorder env s)))"
  by (auto simp: stopRecorder_def in_steps_def Let_def split: option.splits)

lemma releaseCapture_steps: "in_steps 3 5 (snd (snd (returns (releaseCapture s))))"
  by (auto simp: releaseCapture_def returns_def in_steps_def Let_def)

lemma closeInputContext_steps: "in_steps 6 6 (snd (snd (closeInputContext env s)))"
  by (auto simp: closeInputContext_def in_steps_def andThen_def tryCatch_def attempt_def
      split: option.splits)

lemma closeOutputContext_steps: "in_steps 6 6 (snd (snd (closeOutputContext env s)))"
  by (auto simp: closeOutputContext_def in_steps_def andThen_def tryCatch_def attempt_def
      split: option.splits)

lemma stopSources_steps: "in_steps 7 8 (snd (snd (returns (stopSources s))))"
proof -
  have a: "in_steps 7 7 (map SourceStop ns)" for ns
    by (induction ns) (auto simp: in_steps_def)
  have b: "in_steps 8 8 (snd (setStatus Idle u))" for u
    by (simp add: in_steps_def setStatus_def)
  have "in_steps 7 8 (map SourceStop ns @ snd (setStatus Idle u))" for ns u
    by (rule in_steps_append [OF a b]) simp_all
  then show ?thesis
    by (simp add: stopSources_def returns_def Let_def split_beta)
qed

lemma disconnect_steps: "in_steps 1 8 (snd (snd (disconnect env s)))"
  unfolding disconnect_def
  by (intro andThen_in_steps [where b = 1 and c = 2] closeSession_steps
        andThen_in_steps [where a = 2 and b = 2 and c = 3] stopRecorder_steps
        andThen_in_steps [where a = 3 and b = 5 and c = 6] releaseCapture_steps
        andThen_in_steps [where a = 6 and b = 6 and c = 6] closeInputContext_steps
        andThen_in_steps [where a = 6 and b = 6 and c = 7] closeOutputContext_steps
        stopSources_steps) simp_all


text \<open>What each part of the teardown leaves and does, when it returns.\<close>

lemma closeSession_Done:
  assumes "closeSession env s = (Done, s1, e1)"
  shows "s1 = s\<lparr>sessionPromise := None\<rparr>"
    and "SessionClose \<in> set e1 \<longleftrightarrow>
           (sessionPromise s = Some Fulfilled
            \<or> (sessionPromise s = Some Pending \<and> settles env = Fulfilled))"
  using assms
  by (cases s; auto simp: closeSession_def andThen_def tryCatch_def attempt_def Let_def
      split: option.splits if_splits)+

lemma stopRecorder_frame:
  assumes "stopRecorder env s = (x, s2, e2)"
  shows "sessionPromise s2 = sessionPromise s" "outputVolumeInterval s2 = outputVolumeInterval s"
      "stream s2 = stream s" "inputNode s2 = inputNode s"
      "inputAudioContext s2 = inputAudioContext s" "outputAudioContext s2 = outputAudioContext s"
      "sources s2 = sources s" "currentStatus s2 = currentStatus s"
      "onStatusChange s2 = onStatusChange s"
  using assms
  by (auto simp: stopRecorder_def Let_def split: option.splits if_splits)

lemma stopRecorder_Done:
  assumes "stopRecorder env s = (x, s2, e2)"
  shows "x = Done"
    and "case mediaRecorder s2 of None \<Rightarrow> True | Some r \<Rightarrow> rec_state r = Inactive"
    and "RecorderStop \<in> set e2 \<longleftrightarrow>
           (\<exists>r. mediaRecorder s = Some r \<and> rec_state r \<noteq> Inactive)"
    and "AudioRecord b \<in> set e2 \<longleftrightarrow>
           (\<exists>r. mediaRecorder s = Some r \<and> rec_state r \<noteq> Inactive \<and> onAudioRecord s
              \<and> 0 < blob_size b
              \<and> b = recording r (audioChunks s
                    @ (if 0 < blob_size (finalData env) then [finalData env] else [])))"
  using assms
  by (auto simp: stopRecorder_def Let_def split: option.splits if_splits)

lemma releaseCapture_eq:
  "fst (releaseCapture s) = s\<lparr>outputVolumeInterval := False, stream := False, inputNode := False\<rparr>"
  by (cases s) (simp add: releaseCapture_def)

lemma releaseCapture_events:
  "snd (releaseCapture s) =
     (if outputVolumeInterval s then [ClearInterval] else [])
     @ (if stream s then [TrackStop] else [])
     @ (if inputNode s then [InputNodeDisconnect] else [])"
  by (simp add: releaseCapture_def)

lemma closeInputContext_Done:
  assumes "closeInputContext env s = (x, s4, e4)"
  shows "x = Done" and "s4 = s\<lparr>inputAudioContext := None\<rparr>"
    and "ContextClose InputCtx \<in> set e4 \<longleftrightarrow>
           (inputAudioContext s \<noteq> None \<and> inputAudioContext s \<noteq> Some Closed)"
    and "ContextClose OutputCtx \<notin> set e4"
  using assms
  by (cases s; auto simp: closeInputContext_def andThen_def tryCatch_def attempt_def
      split: option.splits if_splits)+

lemma closeOutputContext_Done:
  assumes "closeOutputContext env s = (x, s5, e5)"
  shows "x = Done" and "s5 = s\<lparr>outputAudioContext := None\<rparr>"
    and "ContextClose OutputCtx \<in> set e5 \<longleftrightarrow>
           (outputAudioContext s \<noteq> None \<and> outputAudioContext s \<noteq> Some Closed)"
    and "ContextClose InputCtx \<notin> set e5"
  using assms
  by (cases s; auto simp: closeOutputContext_def andThen_def tryCatch_def attempt_def
      split: option.splits if_splits)+

lemma stopSources_eq:
  "stopSources s = (s\<lparr>sources := [], currentStatus := Idle\<rparr>,
                    map SourceStop (sources s)
                    @ (if onStatusChange s then [StatusChange Idle] else []))"
  by (simp add: stopSources_def Let_def setStatus_def)


lemma in_steps_outside: "in_steps a b ev \<Longrightarrow> step e < a \<or> b < step e \<Longrightarrow> e \<notin> set ev"
  by (auto simp: in_steps_def)

lemma andThen_fst:
  "fst (andThen r f) = (case fst r of Done \<Rightarrow> fst (f (fst (snd r))) | x \<Rightarrow> x)"
  by (cases r rule: prod_cases3) (simp add: andThen_def split_beta split: outcome.splits)

lemma closeSession_outcome:
  "fst (closeSession env s) =
     (if sessionPromise s = Some Pending \<and> settles env = Pending then Blocked else Done)"
  by (auto simp: closeSession_def andThen_def tryCatch_def attempt_def Let_def
      split: option.splits)

lemma later_outcomes:
  "fst (stopRecorder env s) = Done" "fst (returns r) = Done"
  "fst (closeInputContext env s) = Done" "fst (closeOutputContext env s) = Done"
  by (auto simp: stopRecorder_def returns_def closeInputContext_def closeOutputContext_def
      andThen_def tryCatch_def attempt_def Let_def split_beta split: option.splits)

lemma disconnect_outcome:
  "fst (disconnect env s) =
     (if sessionPromise s = Some Pending \<and> settles env = Pending then Blocked else Done)"
  by (simp add: disconnect_def andThen_fst closeSession_outcome later_outcomes)

text \<open>A teardown that returns has gone through its six parts.\<close>

lemma disconnect_Done:
  assumes "disconnect env s = (Done, s', ev)"
  obtains e1 s2 e2 e4 e5 where
    "closeSession env s = (Done, s\<lparr>sessionPromise := None\<rparr>, e1)"
    "stopRecorder env (s\<lparr>sessionPromise := None\<rparr>) = (Done, s2, e2)"
    "closeInputContext env (fst (releaseCapture s2))
       = (Done, (fst (releaseCapture s2))\<lparr>inputAudioContext := None\<rparr>, e4)"
    "closeOutputContext env ((fst (releaseCapture s2))\<lparr>inputAudioContext := None\<rparr>)
       = (Done, (fst (releaseCapture s2))\<lparr>inputAudioContext := None,
                                          outputAudioContext := None\<rparr>, e5)"
    "s' = (fst (releaseCapture s2))\<lparr>inputAudioContext := None, outputAudioContext := None,
                                     sources := [], currentStatus := Idle\<rparr>"
    "ev = e1 @ e2 @ snd (releaseCapture s2) @ e4 @ e5 @ map SourceStop (sources s)
          @ (if onStatusChange s then [StatusChange Idle] else [])"
proof -
  from assms obtain s1 e1 r1 where 1: "closeSession env s = (Done, s1, e1)"
    and a: "andThen (stopRecorder env s1) (\<lambda>s.
              andThen (returns (releaseCapture s)) (\<lambda>s.
              andThen (closeInputContext env s) (\<lambda>s.
              andThen (closeOutputContext env s) (\<lambda>s.
              returns (stopSources s))))) = (Done, s', r1)" and ev: "ev = e1 @ r1"
    unfolding disconnect_def andThen_Done by blast
  from a obtain s2 e2 r2 where 2: "stopRecorder env s1 = (Done, s2, e2)"
    and b: "andThen (returns (releaseCapture s2)) (\<lambda>s.
              andThen (closeInputContext env s) (\<lambda>s.
              andThen (closeOutputContext env s) (\<lambda>s.
              returns (stopSources s)))) = (Done, s', r2)" and r1: "r1 = e2 @ r2"
    unfolding andThen_Done by blast
  from b obtain s3 e3 r3 where 3: "returns (releaseCapture s2) = (Done, s3, e3)"
    and c: "andThen (closeInputContext env s3) (\<lambda>s.
              andThen (closeOutputContext env s) (\<lambda>s.
              returns (stopSources s))) = (Done, s', r3)" and r2: "r2 = e3 @ r3"
    unfolding andThen_Done by blast
  from c obtain s4 e4 r4 where 4: "closeInputContext env s3 = (Done, s4, e4)"
    and d: "andThen (closeOutputContext env s4) (\<lambda>s. returns (stopSources s)) = (Done, s', r4)"
    and r3: "r3 = e4 @ r4"
    unfolding andThen_Done by blast
  from d obtain s5 e5 e6 where 5: "closeOutputContext env s4 = (Done, s5, e5)"
    and 6: "returns (stopSources s5) = (Done, s', e6)" and r4: "r4 = e5 @ e6"
    unfolding andThen_Done by blast
  note s1 = closeSession_Done(1) [OF 1]
  from 3 have s3: "s3 = fst (releaseCapture s2)" "e3 = snd (releaseCapture s2)"
    by (simp_all add: returns_def split_beta)
  note s4 = closeInputContext_Done(2) [OF 4]
  note s5 = closeOutputContext_Done(2) [OF 5]
  have src: "sources s5 = sources s" "onStatusChange s5 = onStatusChange s"
    using stopRecorder_frame [OF 2]
    by (simp_all add: s5 s4 s3 releaseCapture_eq s1)
  from 6 have s': "s' = s5\<lparr>sources := [], currentStatus := Idle\<rparr>"
    and e6: "e6 = map SourceStop (sources s)
                  @ (if onStatusChange s then [StatusChange Idle] else [])"
    by (simp_all add: returns_def stopSources_eq src)
  show ?thesis
    by (rule that [of e1 s2 e2 e4 e5])
       (use 1 2 4 5 in \<open>simp_all add: s1 s3 s4 s5 s' e6 ev r1 r2 r3 r4\<close>)
qed


lemma disconnect_released:
  assumes "released s"
  shows "disconnect env s
         = (Done, s\<lparr>currentStatus := Idle\<rparr>,
            if onStatusChange s then [StatusChange Idle] else [])"
proof -
  from assms have r: "sessionPromise s = None"
    "case mediaRecorder s of None \<Rightarrow> True | Some r \<Rightarrow> rec_state r = Inactive"
    "\<not> outputVolumeInterval s" "\<not> stream s" "\<not> inputNode s"
    "inputAudioContext s = None" "outputAudioContext s = None" "sources s = []"
    by (simp_all add: released_def)
  have 1: "closeSession env s = (Done, s, [])" using r(1) by (simp add: closeSession_def)
  have 2: "stopRecorder env s = (Done, s, [])"
    using r(2) by (simp add: stopRecorder_def split: option.splits)
  have 3: "returns (releaseCapture s) = (Done, s, [])"
    using r(3-5) by (simp add: returns_def releaseCapture_def)
  have 4: "closeInputContext env s = (Done, s, [])"
    using r(6) by (simp add: closeInputContext_def)
  have 5: "closeOutputContext env s = (Done, s, [])"
    using r(7) by (simp add: closeOutputContext_def)
  have "s\<lparr>sources := [], currentStatus := Idle\<rparr> = s\<lparr>currentStatus := Idle\<rparr>"
    using r(8) by (cases s) simp
  then have 6: "returns (stopSources s)
      = (Done, s\<lparr>currentStatus := Idle\<rparr>,
         if onStatusChange s then [StatusChange Idle] else [])"
    using r(8) by (simp add: returns_def stopSources_eq)
  show ?thesis
    by (simp add: disconnect_def 1 2 3 4 5 6 andThen_def)
qed

lemma disconnect_leaves:
  assumes "disconnect env s = (Done, s', ev)"
  shows "released s'" "currentStatus s' = Idle" "onStatusChange s' = onStatusChange s"
proof -
  from assms obtain e1 s2 e2 e4 e5 where
    2: "stopRecorder env (s\<lparr>sessionPromise := None\<rparr>) = (Done, s2, e2)"
    and s': "s' = (fst (releaseCapture s2))\<lparr>inputAudioContext := None,
                    outputAudioContext := None, sources := [], currentStatus := Idle\<rparr>"
    by (rule disconnect_Done)
  note f = stopRecorder_frame [OF 2] stopRecorder_Done(2) [OF 2]
  from f show "released s'" by (simp add: s' releaseCapture_eq released_def)
  show "currentStatus s' = Idle" by (simp add: s')
  from f show "onStatusChange s' = onStatusChange s" by (simp add: s' releaseCapture_eq)
qed

text \<open>
  Claim C6. The effects of \<open>disconnect\<close> follow the order of the eight steps, for every
  controller and whatever the surroundings do, and no failure of a \<open>close()\<close> is raised.
  When \<open>disconnect\<close> returns, each step has taken place exactly when its resource was
  there: the session was closed if its promise was or became fulfilled, the recorder was
  stopped if it was active and its recording handed to the callback if one is registered
  and the recording is not empty, the timer cancelled, the tracks stopped, the capture
  node disconnected, each context closed if it was not closed, every active segment
  stopped; all resources are released and the status is \<open>idle\<close>.
\<close>

theorem teardown_order:
  "sorted (map step (snd (snd (disconnect env s)))) \<and>
   (\<forall>e \<in> set (snd (snd (disconnect env s))). 1 \<le> step e \<and> step e \<le> 8) \<and>
   fst (disconnect env s) \<noteq> Raised x \<and>
   (fst (disconnect env s) = Done \<longrightarrow>
      (SessionClose \<in> set (snd (snd (disconnect env s))) \<longleftrightarrow>
         sessionPromise s = Some Fulfilled
         \<or> (sessionPromise s = Some Pending \<and> settles env = Fulfilled)) \<and>
      (RecorderStop \<in> set (snd (snd (disconnect env s))) \<longleftrightarrow>
         (\<exists>r. mediaRecorder s = Some r \<and> rec_state r \<noteq> Inactive)) \<and>
      (AudioRecord b \<in> set (snd (snd (disconnect env s))) \<longleftrightarrow>
         (\<exists>r. mediaRecorder s = Some r \<and> rec_state r \<noteq> Inactive \<and> onAudioRecord s
            \<and> 0 < blob_size b
            \<and> b = recording r (audioChunks s
                  @ (if 0 < blob_size (finalData env) then [finalData env] else [])))) \<and>
      (ClearInterval \<in> set (snd (snd (disconnect env s))) \<longleftrightarrow> outputVolumeInterval s) \<and>
      (TrackStop \<in> set (snd (snd (disconnect env s))) \<longleftrightarrow> stream s) \<and>
      (InputNodeDisconnect \<in> set (snd (snd (disconnect env s))) \<longleftrightarrow> inputNode s) \<and>
      (ContextClose InputCtx \<in> set (snd (snd (disconnect env s))) \<longleftrightarrow>
         inputAudioContext s \<noteq> None \<and> inputAudioContext s \<noteq> Some Closed) \<and>
      (ContextClose OutputCtx \<in> set (snd (snd (disconnect env s))) \<longleftrightarrow>
         outputAudioContext s \<noteq> None \<and> outputAudioContext s \<noteq> Some Closed) \<and>
      (SourceStop n \<in> set (snd (snd (disconnect env s))) \<longleftrightarrow> n \<in> set (sources s)) \<and>
      released (fst (snd (disconnect env s))) \<and>
      currentStatus (fst (snd (disconnect env s))) = Idle)"
proof (intro conjI impI)
  show "sorted (map step (snd (snd (disconnect env s))))"
    and "\<forall>e \<in> set (snd (snd (disconnect env s))). 1 \<le> step e \<and> step e \<le> 8"
    using disconnect_steps [of env s] by (simp_all add: in_steps_def)
  show "fst (disconnect env s) \<noteq> Raised x" by (simp add: disconnect_outcome)
next
  assume "fst (disconnect env s) = Done"
  then obtain s' ev where d: "disconnect env s = (Done, s', ev)"
    by (cases "disconnect env s" rule: prod_cases3) simp
  then obtain e1 s2 e2 e4 e5 where
    1: "closeSession env s = (Done, s\<lparr>sessionPromise := None\<rparr>, e1)"
    and 2: "stopRecorder env (s\<lparr>sessionPromise := None\<rparr>) = (Done, s2, e2)"
    and 4: "closeInputContext env (fst (releaseCapture s2))
       = (Done, (fst (releaseCapture s2))\<lparr>inputAudioContext := None\<rparr>, e4)"
    and 5: "closeOutputContext env ((fst (releaseCapture s2))\<lparr>inputAudioContext := None\<rparr>)
       = (Done, (fst (releaseCapture s2))\<lparr>inputAudioContext := None,
                                          outputAudioContext := None\<rparr>, e5)"
    and ev: "ev = e1 @ e2 @ snd (releaseCapture s2) @ e4 @ e5 @ map SourceStop (sources s)
          @ (if onStatusChange s then [StatusChange Idle] else [])"
    by (rule disconnect_Done)
  have i1: "in_steps 1 1 e1" using closeSession_steps [of env s] 1 by simp
  have i2: "in_steps 2 2 e2"
    using stopRecorder_steps [of env "s\<lparr>sessionPromise := None\<rparr>"] 2 by simp
  have i4: "in_steps 6 6 e4"
    using closeInputContext_steps [of env "fst (releaseCapture s2)"] 4 by simp
  have i5: "in_steps 6 6 e5"
    using closeOutputContext_steps
      [of env "(fst (releaseCapture s2))\<lparr>inputAudioContext := None\<rparr>"] 5 by simp
  note out = in_steps_outside [OF i1] in_steps_outside [OF i2] in_steps_outside [OF i4]
    in_steps_outside [OF i5]
  note f = stopRecorder_frame [OF 2]
  note c1 = closeSession_Done(2) [OF 1]
  note c2 = stopRecorder_Done(3,4) [OF 2]
  note c4 = closeInputContext_Done(3,4) [OF 4]
  note c5 = closeOutputContext_Done(3,4) [OF 5]
  show "SessionClose \<in> set (snd (snd (disconnect env s))) \<longleftrightarrow>
         sessionPromise s = Some Fulfilled
         \<or> (sessionPromise s = Some Pending \<and> settles env = Fulfilled)"
    using c1 out by (auto simp: d ev releaseCapture_events)
  show "RecorderStop \<in> set (snd (snd (disconnect env s))) \<longleftrightarrow>
         (\<exists>r. mediaRecorder s = Some r \<and> rec_state r \<noteq> Inactive)"
    using c2(1) out by (auto simp: d ev releaseCapture_events)
  show "AudioRecord b \<in> set (snd (snd (disconnect env s))) \<longleftrightarrow>
         (\<exists>r. mediaRecorder s = Some r \<and> rec_state r \<noteq> Inactive \<and> onAudioRecord s
            \<and> 0 < blob_size b
            \<and> b = recording r (audioChunks s
                  @ (if 0 < blob_size (finalData env) then [finalData env] else [])))"
    using c2(2) [of b] out(1,3,4) [of "AudioRecord b"]
    by (auto simp: d ev releaseCapture_events)
  show "ClearInterval \<in> set (snd (snd (disconnect env s))) \<longleftrightarrow> outputVolumeInterval s"
    using f out by (auto simp: d ev releaseCapture_events)
  show "TrackStop \<in> set (snd (snd (disconnect env s))) \<longleftrightarrow> stream s"
    using f out by (auto simp: d ev releaseCapture_events)
  show "InputNodeDisconnect \<in> set (snd (snd (disconnect env s))) \<longleftrightarrow> inputNode s"
    using f out by (auto simp: d ev releaseCapture_events)
  show "ContextClose InputCtx \<in> set (snd (snd (disconnect env s))) \<longleftrightarrow>
         inputAudioContext s \<noteq> None \<and> inputAudioContext s \<noteq> Some Closed"
    using f c4(1) c5(2) out(1,2) [of "ContextClose InputCtx"]
    by (auto simp: d ev releaseCapture_events releaseCapture_eq)
  show "ContextClose OutputCtx \<in> set (snd (snd (disconnect env s))) \<longleftrightarrow>
         outputAudioContext s \<noteq> None \<and> outputAudioContext s \<noteq> Some Closed"
    using f c4(2) c5(1) out(1,2) [of "ContextClose OutputCtx"]
    by (auto simp: d ev releaseCapture_events releaseCapture_eq)
  show "SourceStop n \<in> set (snd (snd (disconnect env s))) \<longleftrightarrow> n \<in> set (sources s)"
    using out [of "SourceStop n"] by (auto simp: d ev releaseCapture_events)
  show "released (fst (snd (disconnect env s)))"
    and "currentStatus (fst (snd (disconnect env s))) = Idle"
    using disconnect_leaves [OF d] by (simp_all add: d)
qed


theorem teardown_order_witness:
  "disconnect
     \<lparr>settles = Fulfilled, closeThrows = None,
      finalData = \<lparr>blob_size = 10, blob_type = []\<rparr>,
      inputCloseRejects = Some TypeError, outputCloseRejects = None\<rparr>
     (initial\<lparr>sessionPromise := Some Fulfilled,
        mediaRecorder := Some \<lparr>rec_state = Recording, rec_mimeType = js ''audio/webm''\<rparr>,
        outputVolumeInterval := True, stream := True, inputNode := True,
        inputAudioContext := Some Running, outputAudioContext := Some Running,
        sources := [3, 4], currentStatus := Speaking, onStatusChange := True,
        onAudioRecord := True\<rparr>)
   = (Done,
      initial\<lparr>mediaRecorder := Some \<lparr>rec_state = Inactive, rec_mimeType = js ''audio/webm''\<rparr>,
        audioChunks := [\<lparr>blob_size = 10, blob_type = []\<rparr>],
        onStatusChange := True, onAudioRecord := True\<rparr>,
      [SessionClose, RecorderStop,
       AudioRecord \<lparr>blob_size = 10, blob_type = js ''audio/webm''\<rparr>,
       ClearInterval, TrackStop, InputNodeDisconnect,
       ContextClose InputCtx, Console ''Error closing inputAudioContext'',
       ContextClose OutputCtx, SourceStop 3, SourceStop 4, StatusChange Idle])
   \<and> sorted (map step
      [SessionClose, RecorderStop,
       AudioRecord \<lparr>blob_size = 10, blob_type = js ''audio/webm''\<rparr>,
       ClearInterval, TrackStop, InputNodeDisconnect,
       ContextClose InputCtx, Console ''Error closing inputAudioContext'',
       ContextClose OutputCtx, SourceStop 3, SourceStop 4, StatusChange Idle])"
proof -
  let ?env = "\<lparr>settles = Fulfilled, closeThrows = None,
      finalData = \<lparr>blob_size = 10, blob_type = []\<rparr>,
      inputCloseRejects = Some TypeError, outputCloseRejects = None\<rparr>"
  let ?s = "initial\<lparr>sessionPromise := Some Fulfilled,
        mediaRecorder := Some \<lparr>rec_state = Recording, rec_mimeType = js ''audio/webm''\<rparr>,
        outputVolumeInterval := True, stream := True, inputNode := True,
        inputAudioContext := Some Running, outputAudioContext := Some Running,
        sources := [3, 4], currentStatus := Speaking, onStatusChange := True,
        onAudioRecord := True\<rparr>"
  have j: "js ''audio/webm'' \<noteq> []" by (simp add: js_def)
  have d: "disconnect ?env ?s
   = (Done,
      initial\<lparr>mediaRecorder := Some \<lparr>rec_state = Inactive, rec_mimeType = js ''audio/webm''\<rparr>,
        audioChunks := [\<lparr>blob_size = 10, blob_type = []\<rparr>],
        onStatusChange := True, onAudioRecord := True\<rparr>,
      [SessionClose, RecorderStop,
       AudioRecord \<lparr>blob_size = 10, blob_type = js ''audio/webm''\<rparr>,
       ClearInterval, TrackStop, InputNodeDisconnect,
       ContextClose InputCtx, Console ''Error closing inputAudioContext'',
       ContextClose OutputCtx, SourceStop 3, SourceStop 4, StatusChange Idle])"
    by (simp add: disconnect_def andThen_def tryCatch_def attempt_def returns_def
        closeSession_def stopRecorder_def recording_def releaseCapture_def
        closeInputContext_def closeOutputContext_def stopSources_def setStatus_def
        initial_def j)
  from teardown_order [of ?env ?s] show ?thesis
    unfolding d by simp
qed

text \<open>
  Claim C7. \<open>disconnect\<close> never ends with an exception. On a controller whose resources
  are all released, as one that was never connected, it returns at once, changes nothing
  but the status and leaves it \<open>idle\<close>. A second call after one that returned finds such
  a controller: it returns, leaves the controller as it is and the status \<open>idle\<close>.
\<close>

theorem idempotent_teardown:
  "fst (disconnect env s) \<noteq> Raised x \<and>
   disconnect env initial = (Done, initial, []) \<and>
   (released s \<longrightarrow>
      disconnect env s
        = (Done, s\<lparr>currentStatus := Idle\<rparr>,
           if onStatusChange s then [StatusChange Idle] else [])) \<and>
   (fst (disconnect env s) = Done \<longrightarrow>
      currentStatus (fst (snd (disconnect env s))) = Idle \<and>
      disconnect env2 (fst (snd (disconnect env s)))
        = (Done, fst (snd (disconnect env s)),
           if onStatusChange s then [StatusChange Idle] else []))"
proof (intro conjI impI)
  show "fst (disconnect env s) \<noteq> Raised x" by (simp add: disconnect_outcome)
  have "released initial" by (simp add: released_def initial_def)
  from disconnect_released [OF this, of env]
  show "disconnect env initial = (Done, initial, [])"
    by (simp add: initial_def)
  show "disconnect env s = (Done, s\<lparr>currentStatus := Idle\<rparr>,
           if onStatusChange s then [StatusChange Idle] else [])" if "released s"
    using that by (rule disconnect_released)
next
  assume "fst (disconnect env s) = Done"
  then obtain s' ev where d: "disconnect env s = (Done, s', ev)"
    by (cases "disconnect env s" rule: prod_cases3) simp
  note l = disconnect_leaves [OF d]
  show "currentStatus (fst (snd (disconnect env s))) = Idle" using l(2) by (simp add: d)
  have "s'\<lparr>currentStatus := Idle\<rparr> = s'" using l(2) by (cases s') simp
  with disconnect_released [OF l(1), of env2] l(3)
  show "disconnect env2 (fst (snd (disconnect env s)))
        = (Done, fst (snd (disconnect env s)),
           if onStatusChange s then [StatusChange Idle] else [])"
    by (simp add: d)
qed

theorem idempotent_teardown_witness:
  "fst (disconnect
     \<lparr>settles = Fulfilled, closeThrows = Some TypeError,
      finalData = \<lparr>blob_size = 0, blob_type = []\<rparr>,
      inputCloseRejects = None, outputCloseRejects = Some TypeError\<rparr>
     (initial\<lparr>sessionPromise := Some Pending, stream := True,
        inputAudioContext := Some Running, outputAudioContext := Some Suspended,
        currentStatus := Error, onStatusChange := True\<rparr>)) = Done
   \<and> disconnect
     \<lparr>settles = Pending, closeThrows = None,
      finalData = \<lparr>blob_size = 0, blob_type = []\<rparr>,
      inputCloseRejects = None, outputCloseRejects = None\<rparr>
     (fst (snd (disconnect
        \<lparr>settles = Fulfilled, closeThrows = Some TypeError,
         finalData = \<lparr>blob_size = 0, blob_type = []\<rparr>,
         inputCloseRejects = None, outputCloseRejects = Some TypeError\<rparr>
        (initial\<lparr>sessionPromise := Some Pending, stream := True,
           inputAudioContext := Some Running, outputAudioContext := Some Suspended,
           currentStatus := Error, onStatusChange := True\<rparr>))))
     = (Done, initial\<lparr>onStatusChange := True\<rparr>, [StatusChange Idle])"
proof -
  let ?env = "\<lparr>settles = Fulfilled, closeThrows = Some TypeError,
      finalData = \<lparr>blob_size = 0, blob_type = []\<rparr>,
      inputCloseRejects = None, outputCloseRejects = Some TypeError\<rparr>"
  let ?env2 = "\<lparr>settles = Pending, closeThrows = None,
      finalData = \<lparr>blob_size = 0, blob_type = []\<rparr>,
      inputCloseRejects = None, outputCloseRejects = None\<rparr>"
  let ?s = "initial\<lparr>sessionPromise := Some Pending, stream := True,
        inputAudioContext := Some Running, outputAudioContext := Some Suspended,
        currentStatus := Error, onStatusChange := True\<rparr>"
  have d: "disconnect ?env ?s
    = (Done, initial\<lparr>onStatusChange := True\<rparr>,
       [SessionClose, Console ''Error closing session'', TrackStop, ContextClose InputCtx,
        ContextClose OutputCtx, Console ''Error closing outputAudioContext'',
        StatusChange Idle])"
    by (simp add: disconnect_def andThen_def tryCatch_def attempt_def returns_def
        closeSession_def stopRecorder_def releaseCapture_def closeInputContext_def
        closeOutputContext_def stopSources_def setStatus_def initial_def)
  have o: "onStatusChange ?s" by simp
  from idempotent_teardown [of ?env ?s _ ?env2] o show ?thesis
    unfolding d by simp
qed

subsection \<open>Connecting with retries\<close>

lemma sleeps_append: "sleeps (xs @ ys) = sleeps xs @ sleeps ys"
  by (induction xs rule: sleeps.induct) simp_all

lemma sleeps_steps: "\<forall>e \<in> set ev. 1 \<le> step e \<Longrightarrow> sleeps ev = []"
  by (induction ev rule: sleeps.induct) simp_all

lemma disconnect_sleeps: "sleeps (snd (snd (disconnect env s))) = []"
  using disconnect_steps [of env s] by (intro sleeps_steps) (simp add: in_steps_def)

lemma setStatus_sleeps: "sleeps (snd (setStatus r s)) = []"
  by (simp add: setStatus_def)

lemma onopen_sleeps: "sleeps (snd (onopen s)) = []"
  by (simp add: onopen_def startOutputVolumeMonitoring_def split_beta Let_def sleeps_append
      setStatus_sleeps)

lemma onopen_status:
  "currentStatus (fst (onopen s)) = (if currentStatus s = Error then Error else Listening)"
  by (simp add: onopen_def startOutputVolumeMonitoring_def startAudioInput_def split_beta
      Let_def setStatus_def)

lemma startRecording_fields:
  "sleeps (snd (startRecording env s)) = []"
  "currentStatus (fst (startRecording env s)) = currentStatus s"
  by (simp_all add: startRecording_def Let_def)

text \<open>One attempt of \<open>connectWithRetry\<close>.\<close>

lemma retry_opens:
  "att i = Opens \<Longrightarrow> connectWithRetry att i r s = (Connected, fst (onopen s), snd (onopen s))"
  by (simp add: connectWithRetry.simps split_beta)

lemma retry_propagates:
  "att i = Fails e \<Longrightarrow> \<not> unavailable e \<or> r = 0 \<Longrightarrow>
   connectWithRetry att i r s = (Failed e, s, [])"
  by (auto simp: connectWithRetry.simps)

lemma retry_again:
  "att i = Fails e \<Longrightarrow> unavailable e \<Longrightarrow>
   connectWithRetry att i (Suc r) s =
     (case connectWithRetry att (Suc i) r s of
        (x, s1, e1) \<Rightarrow>
          (x, s1, Console ''Connection failed (Unavailable), retrying...'' # Sleep 1500 # e1))"
  by (subst connectWithRetry.simps) simp

lemma retry_waits:
  "\<exists>k \<le> r. sleeps (snd (snd (connectWithRetry att i r s))) = replicate k 1500"
proof (induction r arbitrary: i)
  case 0
  show ?case
    by (cases "att i") (simp_all add: retry_opens retry_propagates onopen_sleeps
        connectWithRetry.simps [of att i 0])
next
  case (Suc r)
  show ?case
  proof (cases "att i")
    case Opens
    then show ?thesis by (simp add: retry_opens onopen_sleeps)
  next
    case Hangs
    then show ?thesis by (simp add: connectWithRetry.simps)
  next
    case (Fails e)
    show ?thesis
    proof (cases "unavailable e")
      case True
      from Suc.IH [of "Suc i"] obtain k where
        k: "k \<le> r" "sleeps (snd (snd (connectWithRetry att (Suc i) r s))) = replicate k 1500"
        by blast
      then have "sleeps (snd (snd (connectWithRetry att i (Suc r) s))) = replicate (Suc k) 1500"
        using retry_again [of att i e r s, OF Fails True] by (simp add: split_beta)
      with k(1) show ?thesis by (intro exI [of _ "Suc k"]) simp
    next
      case False
      with Fails show ?thesis by (simp add: retry_propagates)
    qed
  qed
qed


text \<open>The two scenarios of the retry bound, for the three retries that \<open>connect\<close> allows.\<close>

lemma retry_fourth_opens:
  assumes "\<forall>j < 3. \<exists>e. att j = Fails e \<and> unavailable e" and "att 3 = Opens"
  shows "connectWithRetry att 0 3 s =
     (Connected, fst (onopen s),
      [Console ''Connection failed (Unavailable), retrying...'', Sleep 1500,
       Console ''Connection failed (Unavailable), retrying...'', Sleep 1500,
       Console ''Connection failed (Unavailable), retrying...'', Sleep 1500] @ snd (onopen s))"
proof -
  from assms(1) obtain e0 e1 e2 where
    f: "att 0 = Fails e0" "unavailable e0" "att (Suc 0) = Fails e1" "unavailable e1"
       "att (Suc (Suc 0)) = Fails e2" "unavailable e2"
    by (metis One_nat_def Suc_1 lessI less_SucI numeral_3_eq_3 zero_less_Suc)
  have o: "att (Suc (Suc (Suc 0))) = Opens" using assms(2) by (simp add: numeral_3_eq_3)
  show ?thesis
    unfolding numeral_3_eq_3
    by (simp add: retry_again [of att 0 e0, OF f(1,2)]
        retry_again [of att "Suc 0" e1, OF f(3,4)]
        retry_again [of att "Suc (Suc 0)" e2, OF f(5,6)] retry_opens [of att "Suc (Suc (Suc 0))", OF o] split_beta)
qed

lemma retry_exhausted:
  assumes "\<forall>j < 4. \<exists>e. att j = Fails e \<and> unavailable e"
  shows "\<exists>e. connectWithRetry att 0 3 s =
     (Failed e, s,
      [Console ''Connection failed (Unavailable), retrying...'', Sleep 1500,
       Console ''Connection failed (Unavailable), retrying...'', Sleep 1500,
       Console ''Connection failed (Unavailable), retrying...'', Sleep 1500])"
proof -
  have "\<exists>e. att j = Fails e \<and> unavailable e" if "j \<in> {0, Suc 0, Suc (Suc 0), Suc (Suc (Suc 0))}" for j
    using assms that by (auto simp: numeral_eq_Suc)
  then obtain e0 e1 e2 e3 where
    f: "att 0 = Fails e0" "unavailable e0" "att (Suc 0) = Fails e1" "unavailable e1"
       "att (Suc (Suc 0)) = Fails e2" "unavailable e2"
       "att (Suc (Suc (Suc 0))) = Fails e3"
    by (metis insertCI)
  have "connectWithRetry att 0 3 s =
     (Failed e3, s,
      [Console ''Connection failed (Unavailable), retrying...'', Sleep 1500,
       Console ''Connection failed (Unavailable), retrying...'', Sleep 1500,
       Console ''Connection failed (Unavailable), retrying...'', Sleep 1500])"
    unfolding numeral_3_eq_3
    by (simp add: retry_again [of att 0 e0, OF f(1,2)]
        retry_again [of att "Suc 0" e1, OF f(3,4)]
        retry_again [of att "Suc (Suc 0)" e2, OF f(5,6)]
        retry_propagates [of att "Suc (Suc (Suc 0))" e3 0, OF f(7)])
  then show ?thesis by blast
qed

lemma openSession_opened:
  assumes "micGranted env" "\<forall>j < 3. \<exists>e. attempts env j = Fails e \<and> unavailable e"
    "attempts env 3 = Opens"
  shows "fst (openSession env u) = Done"
    "sessionPromise (fst (snd (openSession env u))) = Some Fulfilled"
    "currentStatus (fst (snd (openSession env u)))
       = (if currentStatus u = Error then Error else Listening)"
    "sleeps (snd (snd (openSession env u))) = [1500, 1500, 1500]"
  using assms(1)
  by (simp_all add: openSession_def Let_def split_beta retry_fourth_opens [OF assms(2,3)]
      onopen_status onopen_sleeps startRecording_fields sleeps_append)

lemma connectFailed_rejected:
  assumes "sessionPromise s = Some Rejected"
  shows "fst (connectFailed e s) = Done"
    "currentStatus (fst (snd (connectFailed e s))) = Error"
    "sessionPromise (fst (snd (connectFailed e s))) = Some Rejected"
    "sleeps (snd (snd (connectFailed e s))) = []"
  using assms
  by (simp_all add: connectFailed_def disconnect_sync_def setStatus_def split_beta)

lemma openSession_exhausted:
  assumes "micGranted env" "\<forall>j < 4. \<exists>e. attempts env j = Fails e \<and> unavailable e"
  shows "\<exists>e. fst (openSession env u) = Raised (ApiError e)"
    "sessionPromise (fst (snd (openSession env u))) = Some Rejected"
    "sleeps (snd (snd (openSession env u))) = [1500, 1500, 1500]"
proof -
  let ?w = "(fst (startRecording env
      (u\<lparr>inputAudioContext := Some Running, outputAudioContext := Some Running,
         outputNode := True, outputAnalyser := True, stream := True\<rparr>)))
      \<lparr>sessionPromise := Some Pending\<rparr>"
  from retry_exhausted [OF assms(2), of ?w] obtain e where
    r: "connectWithRetry (attempts env) 0 3 ?w =
     (Failed e, ?w,
      [Console ''Connection failed (Unavailable), retrying...'', Sleep 1500,
       Console ''Connection failed (Unavailable), retrying...'', Sleep 1500,
       Console ''Connection failed (Unavailable), retrying...'', Sleep 1500])"
    by blast
  from assms(1) r show "\<exists>e. fst (openSession env u) = Raised (ApiError e)"
    "sessionPromise (fst (snd (openSession env u))) = Some Rejected"
    "sleeps (snd (snd (openSession env u))) = [1500, 1500, 1500]"
    by (simp_all add: openSession_def Let_def split_beta startRecording_fields sleeps_append)
qed


text \<open>
  \<open>disconnect_sync\<close> agrees with \<open>disconnect\<close>: when it reaches the end, it is the whole
  teardown.
\<close>

lemma disconnect_sync_finished:
  assumes "fst (disconnect_sync s)"
  shows "disconnect env s = (Done, snd (disconnect_sync s))"
proof -
  from assms have p: "sessionPromise s = None"
    by (auto simp: disconnect_sync_def split: if_splits)
  from assms p have r: "case mediaRecorder s of None \<Rightarrow> True | Some r \<Rightarrow> rec_state r = Inactive"
    by (auto simp: disconnect_sync_def split: option.splits if_splits)
  let ?s1 = "fst (releaseCapture s)"
  from assms p r have i: "inputAudioContext ?s1 = None \<or> inputAudioContext ?s1 = Some Closed"
    by (auto simp: disconnect_sync_def split_beta Let_def split: option.splits if_splits)
  from assms p r i have o: "outputAudioContext ?s1 = None \<or> outputAudioContext ?s1 = Some Closed"
    by (auto simp: disconnect_sync_def split_beta Let_def split: option.splits if_splits)
  have 1: "closeSession env s = (Done, s, [])" using p by (simp add: closeSession_def)
  have 2: "stopRecorder env s = (Done, s, [])"
    using r by (simp add: stopRecorder_def split: option.splits)
  have 4: "closeInputContext env ?s1 = (Done, ?s1\<lparr>inputAudioContext := None\<rparr>, [])"
    using i by (cases ?s1) (auto simp: closeInputContext_def andThen_def)
  have 5: "closeOutputContext env (?s1\<lparr>inputAudioContext := None\<rparr>)
      = (Done, ?s1\<lparr>inputAudioContext := None, outputAudioContext := None\<rparr>, [])"
    using o by (cases ?s1) (auto simp: closeOutputContext_def andThen_def)
  have d: "disconnect env s
      = (Done, fst (stopSources (?s1\<lparr>inputAudioContext := None, outputAudioContext := None\<rparr>)),
         snd (releaseCapture s)
         @ snd (stopSources (?s1\<lparr>inputAudioContext := None, outputAudioContext := None\<rparr>)))"
    by (simp add: disconnect_def 1 2 4 5 andThen_def returns_def split_beta)
  from p r i o have "snd (disconnect_sync s)
      = (fst (stopSources (?s1\<lparr>inputAudioContext := None, outputAudioContext := None\<rparr>)),
         snd (releaseCapture s)
         @ snd (stopSources (?s1\<lparr>inputAudioContext := None, outputAudioContext := None\<rparr>)))"
    by (auto simp: disconnect_sync_def split_beta Let_def split: option.splits)
  with d show ?thesis by simp
qed

lemma stops_sleeps: "sleeps (map SourceStop ns) = []"
  by (induction ns) simp_all

lemma disconnect_sync_sleeps: "sleeps (snd (snd (disconnect_sync s))) = []"
  by (simp add: disconnect_sync_def releaseCapture_def stopSources_eq Let_def split_beta
      sleeps_append stops_sleeps split: option.splits)

lemma connectFailed_sleeps: "sleeps (snd (snd (connectFailed e s))) = []"
  by (simp add: connectFailed_def split_beta sleeps_append setStatus_sleeps
      disconnect_sync_sleeps)

lemma connectFailed_Done: "fst (connectFailed e s) = Done"
  by (simp add: connectFailed_def split_beta)

lemma openSession_sleeps:
  "\<exists>k \<le> 3. sleeps (snd (snd (openSession env u))) = replicate k 1500"
proof (cases "micGranted env")
  case False
  then show ?thesis by (simp add: openSession_def Let_def)
next
  case True
  let ?w = "(fst (startRecording env
      (u\<lparr>inputAudioContext := Some Running, outputAudioContext := Some Running,
         outputNode := True, outputAnalyser := True, stream := True\<rparr>)))
      \<lparr>sessionPromise := Some Pending\<rparr>"
  from retry_waits [of 3 "attempts env" 0 ?w] obtain k where
    k: "k \<le> 3" "sleeps (snd (snd (connectWithRetry (attempts env) 0 3 ?w))) = replicate k 1500"
    by blast
  have "sleeps (snd (snd (openSession env u))) = replicate k 1500"
    using True k(2)
    by (simp add: openSession_def Let_def split_beta startRecording_fields sleeps_append
        split: attempt_result.splits)
  with k(1) show ?thesis by blast
qed

lemma tryCatch_connectFailed:
  "fst (tryCatch r connectFailed) = (if fst r = Blocked then Blocked else Done)"
  "sleeps (snd (snd (tryCatch r connectFailed))) = sleeps (snd (snd r))"
  "fst r = Done \<Longrightarrow> tryCatch r connectFailed = r"
  "fst r = Raised e \<Longrightarrow>
     fst (snd (tryCatch r connectFailed)) = fst (snd (connectFailed e (fst (snd r))))"
  by (cases r rule: prod_cases3;
      simp add: tryCatch_def split_beta sleeps_append connectFailed_sleeps connectFailed_Done
        split: outcome.splits)+

text \<open>\<open>connect\<close> after a teardown that returned.\<close>

lemma connect_after_teardown:
  assumes "fst (disconnect (teardown env) s) = Done"
  obtains u where "currentStatus u = Connecting"
    "fst (connect env s) = fst (tryCatch (openSession env u) connectFailed)"
    "fst (snd (connect env s)) = fst (snd (tryCatch (openSession env u) connectFailed))"
    "sleeps (snd (snd (connect env s))) = sleeps (snd (snd (openSession env u)))"
proof -
  from assms obtain s0 e0 where d: "disconnect (teardown env) s = (Done, s0, e0)"
    by (cases "disconnect (teardown env) s" rule: prod_cases3) simp
  have i: "currentStatus s0 = Idle" by (rule disconnect_leaves(2) [OF d])
  have e0: "sleeps e0 = []" using disconnect_sleeps [of "teardown env" s] by (simp add: d)
  let ?u = "(fst (setStatus Connecting s0))\<lparr>audioChunks := []\<rparr>"
  have c: "connect env s =
      (case tryCatch (openSession env ?u) connectFailed of
         (x, s1, ev) \<Rightarrow> (x, s1, e0 @ snd (setStatus Connecting s0) @ ev))"
    by (simp add: connect_def d andThen_def returns_def split_beta)
  show ?thesis
  proof (rule that [of ?u])
    show "currentStatus ?u = Connecting" using i by (simp add: setStatus_def)
  qed (simp_all add: c split_beta sleeps_append e0 setStatus_sleeps tryCatch_connectFailed(2))
qed

lemma connect_sleeps: "\<exists>k \<le> 3. sleeps (snd (snd (connect env s))) = replicate k 1500"
proof (cases "fst (disconnect (teardown env) s) = Done")
  case True
  then obtain u where "sleeps (snd (snd (connect env s))) = sleeps (snd (snd (openSession env u)))"
    by (rule connect_after_teardown)
  with openSession_sleeps [of env u] show ?thesis by simp
next
  case False
  then have "snd (snd (connect env s)) = snd (snd (disconnect (teardown env) s))"
    by (cases "disconnect (teardown env) s" rule: prod_cases3)
       (auto simp: connect_def andThen_def split: outcome.splits)
  then have "sleeps (snd (snd (connect env s))) = replicate 0 1500"
    by (simp add: disconnect_sleeps)
  then show ?thesis by blast
qed

text \<open>
  Claim C2. A failure that is not the transient one propagates at once; every wait of
  \<open>connectWithRetry\<close>, hence of \<open>connect\<close>, lasts 1500 ms and \<open>connect\<close> waits at most
  three times. When the microphone is granted and the opening teardown returns: after three
  transient failures and a success, \<open>connect\<close> returns with the session promise fulfilled
  and the status \<open>listening\<close>, having waited three times 1500 ms; after four transient
  failures it returns, having waited three times 1500 ms, with the status \<open>error\<close>.
\<close>

theorem connect_retry_bound:
  "(att i = Fails e \<and> \<not> unavailable e \<longrightarrow> connectWithRetry att i r u = (Failed e, u, [])) \<and>
   (\<exists>k \<le> r. sleeps (snd (snd (connectWithRetry att i r u))) = replicate k 1500) \<and>
   (\<exists>k \<le> 3. sleeps (snd (snd (connect env s))) = replicate k 1500) \<and>
   (micGranted env \<and> fst (disconnect (teardown env) s) = Done
      \<and> (\<forall>j < 3. \<exists>e. attempts env j = Fails e \<and> unavailable e) \<and> attempts env 3 = Opens \<longrightarrow>
        fst (connect env s) = Done
        \<and> sleeps (snd (snd (connect env s))) = [1500, 1500, 1500]
        \<and> sessionPromise (fst (snd (connect env s))) = Some Fulfilled
        \<and> currentStatus (fst (snd (connect env s))) = Listening) \<and>
   (micGranted env \<and> fst (disconnect (teardown env) s) = Done
      \<and> (\<forall>j < 4. \<exists>e. attempts env j = Fails e \<and> unavailable e) \<longrightarrow>
        fst (connect env s) = Done
        \<and> sleeps (snd (snd (connect env s))) = [1500, 1500, 1500]
        \<and> currentStatus (fst (snd (connect env s))) = Error)"
proof (intro conjI impI)
  show "connectWithRetry att i r u = (Failed e, u, [])" if "att i = Fails e \<and> \<not> unavailable e"
    using that by (simp add: retry_propagates)
  show "\<exists>k \<le> r. sleeps (snd (snd (connectWithRetry att i r u))) = replicate k 1500"
    by (rule retry_waits)
  show "\<exists>k \<le> 3. sleeps (snd (snd (connect env s))) = replicate k 1500"
    by (rule connect_sleeps)
next
  assume a: "micGranted env \<and> fst (disconnect (teardown env) s) = Done
      \<and> (\<forall>j < 3. \<exists>e. attempts env j = Fails e \<and> unavailable e) \<and> attempts env 3 = Opens"
  then obtain u where u: "currentStatus u = Connecting"
    "fst (connect env s) = fst (tryCatch (openSession env u) connectFailed)"
    "fst (snd (connect env s)) = fst (snd (tryCatch (openSession env u) connectFailed))"
    "sleeps (snd (snd (connect env s))) = sleeps (snd (snd (openSession env u)))"
    using connect_after_teardown [of env s] by blast
  from a have m: "micGranted env" "\<forall>j < 3. \<exists>e. attempts env j = Fails e \<and> unavailable e"
    "attempts env 3 = Opens" by simp_all
  note o = openSession_opened [OF m, of u]
  note t = tryCatch_connectFailed(3) [OF o(1)]
  show "fst (connect env s) = Done" by (simp add: u t o)
  show "sleeps (snd (snd (connect env s))) = [1500, 1500, 1500]" by (simp add: u o)
  show "sessionPromise (fst (snd (connect env s))) = Some Fulfilled" by (simp add: u t o)
  show "currentStatus (fst (snd (connect env s))) = Listening" by (simp add: u t o)
next
  assume a: "micGranted env \<and> fst (disconnect (teardown env) s) = Done
      \<and> (\<forall>j < 4. \<exists>e. attempts env j = Fails e \<and> unavailable e)"
  then obtain u where u: "currentStatus u = Connecting"
    "fst (connect env s) = fst (tryCatch (openSession env u) connectFailed)"
    "fst (snd (connect env s)) = fst (snd (tryCatch (openSession env u) connectFailed))"
    "sleeps (snd (snd (connect env s))) = sleeps (snd (snd (openSession env u)))"
    using connect_after_teardown [of env s] by blast
  from a have m: "micGranted env" "\<forall>j < 4. \<exists>e. attempts env j = Fails e \<and> unavailable e"
    by simp_all
  note o = openSession_exhausted [OF m, of u]
  from o(1) obtain e where e: "fst (openSession env u) = Raised (ApiError e)" by blast
  note t = tryCatch_connectFailed(4) [OF e]
  show "fst (connect env s) = Done"
    by (simp add: u tryCatch_connectFailed(1) e)
  show "sleeps (snd (snd (connect env s))) = [1500, 1500, 1500]" by (simp add: u o)
  show "currentStatus (fst (snd (connect env s))) = Error"
    by (simp add: u t connectFailed_rejected(2) [OF o(2)])
qed


theorem connect_retry_bound_witness:
  "fst (connect
      \<lparr>teardown = \<lparr>settles = Fulfilled, closeThrows = None,
                    finalData = \<lparr>blob_size = 0, blob_type = []\<rparr>,
                    inputCloseRejects = None, outputCloseRejects = None\<rparr>,
       micGranted = True, recorderDefined = True, supportsOpus = True, supportsMp4 = False,
       supportsWebm = True,
       attempts = (\<lambda>j. if j < 3 then Fails \<lparr>err_message = None, err_status = Some 503\<rparr>
                       else Opens)\<rparr>
      initial) = Done
   \<and> sleeps (snd (snd (connect
      \<lparr>teardown = \<lparr>settles = Fulfilled, closeThrows = None,
                    finalData = \<lparr>blob_size = 0, blob_type = []\<rparr>,
                    inputCloseRejects = None, outputCloseRejects = None\<rparr>,
       micGranted = True, recorderDefined = True, supportsOpus = True, supportsMp4 = False,
       supportsWebm = True,
       attempts = (\<lambda>j. if j < 3 then Fails \<lparr>err_message = None, err_status = Some 503\<rparr>
                       else Opens)\<rparr>
      initial))) = [1500, 1500, 1500]
   \<and> currentStatus (fst (snd (connect
      \<lparr>teardown = \<lparr>settles = Fulfilled, closeThrows = None,
                    finalData = \<lparr>blob_size = 0, blob_type = []\<rparr>,
                    inputCloseRejects = None, outputCloseRejects = None\<rparr>,
       micGranted = True, recorderDefined = True, supportsOpus = True, supportsMp4 = False,
       supportsWebm = True,
       attempts = (\<lambda>j. if j < 3 then Fails \<lparr>err_message = None, err_status = Some 503\<rparr>
                       else Opens)\<rparr>
      initial))) = Listening
   \<and> sleeps (snd (snd (connect
      \<lparr>teardown = \<lparr>settles = Fulfilled, closeThrows = None,
                    finalData = \<lparr>blob_size = 0, blob_type = []\<rparr>,
                    inputCloseRejects = None, outputCloseRejects = None\<rparr>,
       micGranted = True, recorderDefined = True, supportsOpus = True, supportsMp4 = False,
       supportsWebm = True,
       attempts = (\<lambda>j. Fails \<lparr>err_message = Some (js ''Service unavailable''),
                                err_status = None\<rparr>)\<rparr>
      initial))) = [1500, 1500, 1500]
   \<and> currentStatus (fst (snd (connect
      \<lparr>teardown = \<lparr>settles = Fulfilled, closeThrows = None,
                    finalData = \<lparr>blob_size = 0, blob_type = []\<rparr>,
                    inputCloseRejects = None, outputCloseRejects = None\<rparr>,
       micGranted = True, recorderDefined = True, supportsOpus = True, supportsMp4 = False,
       supportsWebm = True,
       attempts = (\<lambda>j. Fails \<lparr>err_message = Some (js ''Service unavailable''),
                                err_status = None\<rparr>)\<rparr>
      initial))) = Error"
proof -
  let ?td = "\<lparr>settles = Fulfilled, closeThrows = None,
                    finalData = \<lparr>blob_size = 0, blob_type = []\<rparr>,
                    inputCloseRejects = None, outputCloseRejects = None\<rparr>"
  let ?b = "\<lparr>teardown = ?td,
       micGranted = True, recorderDefined = True, supportsOpus = True, supportsMp4 = False,
       supportsWebm = True,
       attempts = (\<lambda>j. if j < 3 then Fails \<lparr>err_message = None, err_status = Some 503\<rparr>
                       else Opens)\<rparr>"
  let ?c = "\<lparr>teardown = ?td,
       micGranted = True, recorderDefined = True, supportsOpus = True, supportsMp4 = False,
       supportsWebm = True,
       attempts = (\<lambda>j. Fails \<lparr>err_message = Some (js ''Service unavailable''),
                                err_status = None\<rparr>)\<rparr>"
  have d: "fst (disconnect ?td initial) = Done"
    by (simp add: disconnect_outcome initial_def)
  have u1: "unavailable \<lparr>err_message = None, err_status = Some 503\<rparr>"
    by (simp add: unavailable_def)
  have u2: "unavailable \<lparr>err_message = Some (js ''Service unavailable''), err_status = None\<rparr>"
    by (simp add: unavailable_def js_def)
  have hb: "micGranted ?b \<and> fst (disconnect (teardown ?b) initial) = Done
      \<and> (\<forall>j < 3. \<exists>e. attempts ?b j = Fails e \<and> unavailable e) \<and> attempts ?b 3 = Opens"
    using d u1 by simp
  have hc: "micGranted ?c \<and> fst (disconnect (teardown ?c) initial) = Done
      \<and> (\<forall>j < 4. \<exists>e. attempts ?c j = Fails e \<and> unavailable e)"
    using d u2 by simp
  from connect_retry_bound [of _ _ _ _ _ ?b initial] hb
    connect_retry_bound [of _ _ _ _ _ ?c initial] hc
  show ?thesis by blast
qed

text \<open>
  After the failure the teardown that \<open>connect\<close> left pending is a whole \<open>disconnect\<close>,
  since it had stopped at its first \<open>await\<close>; it returns and leaves the status \<open>idle\<close>.
\<close>

lemma connect_failure_then_idle:
  assumes "micGranted env" "fst (disconnect (teardown env) s) = Done"
    "\<forall>j < 4. \<exists>e. attempts env j = Fails e \<and> unavailable e"
  shows "disconnect_sync (fst (snd (connect env s))) = (False, fst (snd (connect env s)), [])"
    and "fst (disconnect env2 (fst (snd (connect env s)))) = Done"
    and "currentStatus (fst (snd (disconnect env2 (fst (snd (connect env s)))))) = Idle"
proof -
  obtain u where u: "currentStatus u = Connecting"
    "fst (snd (connect env s)) = fst (snd (tryCatch (openSession env u) connectFailed))"
    using connect_after_teardown [OF assms(2)] by blast
  note o = openSession_exhausted [OF assms(1,3), of u]
  from o(1) obtain e where e: "fst (openSession env u) = Raised (ApiError e)" by blast
  have p: "sessionPromise (fst (snd (connect env s))) = Some Rejected"
    by (simp add: u tryCatch_connectFailed(4) [OF e] connectFailed_rejected(3) [OF o(2)])
  then show "disconnect_sync (fst (snd (connect env s))) = (False, fst (snd (connect env s)), [])"
    by (simp add: disconnect_sync_def)
  show d: "fst (disconnect env2 (fst (snd (connect env s)))) = Done"
    by (simp add: disconnect_outcome p)
  then obtain s' ev where "disconnect env2 (fst (snd (connect env s))) = (Done, s', ev)"
    by (cases "disconnect env2 (fst (snd (connect env s)))" rule: prod_cases3) simp
  from disconnect_leaves(2) [OF this] this
  show "currentStatus (fst (snd (disconnect env2 (fst (snd (connect env s)))))) = Idle"
    by simp
qed

end
